theory Spec2Isabelle
  imports Main
begin

unbundle bit_operations_syntax

section \<open>C integers and constants\<close>

text \<open>
  A C \<^verbatim>\<open>int\<close> is a 32-bit two's complement value. It is modelled as an \<^typ>\<open>int\<close>
  with the wrap-around written out after every addition, subtraction and multiplication;
  a \<^verbatim>\<open>size_t\<close> is 64 bits wide and unsigned.
\<close>

definition wrap32 :: "int \<Rightarrow> int" where
  "wrap32 x = (x + 2 ^ 31) mod 2 ^ 32 - 2 ^ 31"

definition int_add :: "int \<Rightarrow> int \<Rightarrow> int" where
  "int_add a b = wrap32 (a + b)"

definition int_sub :: "int \<Rightarrow> int \<Rightarrow> int" where
  "int_sub a b = wrap32 (a - b)"

definition int_mul :: "int \<Rightarrow> int \<Rightarrow> int" where
  "int_mul a b = wrap32 (a * b)"

definition size_t_of :: "int \<Rightarrow> int" where
  "size_t_of x = x mod 2 ^ 64"

text \<open>\<^verbatim>\<open>inline int min(int a, int b)\<close>, lines 22-24.\<close>

definition min_c :: "int \<Rightarrow> int \<Rightarrow> int" where
  "min_c a b = (if a < b then a else b)"

text \<open>
  Constants of the headers the source includes (\<^verbatim>\<open>libssh2.h\<close> and the Linux system
  headers).
\<close>

definition LIBSSH2_ERROR_EAGAIN :: int where
  "LIBSSH2_ERROR_EAGAIN = - 37"

definition LIBSSH2_SESSION_BLOCK_INBOUND :: int where
  "LIBSSH2_SESSION_BLOCK_INBOUND = 1"

definition LIBSSH2_SESSION_BLOCK_OUTBOUND :: int where
  "LIBSSH2_SESSION_BLOCK_OUTBOUND = 2"

definition EINTR :: int where
  "EINTR = 4"

definition O_NONBLOCK :: int where
  "O_NONBLOCK = 2048"

definition POLLIN :: int where
  "POLLIN = 1"

definition POLLPRI :: int where
  "POLLPRI = 2"

section \<open>The outside world as a trace of calls\<close>

text \<open>
  Every call the source makes to the operating system, to the allocator or to the SSH
  engine is an event. A function of the model returns the events in the order in which
  the source issues the calls. An event carries the arguments of the call and, where the
  source reads it, the result. Allocation is taken to succeed: the source dereferences every
  \<^verbatim>\<open>malloc\<close> and \<^verbatim>\<open>realloc\<close> result unchecked.
\<close>

datatype block = Blk_session | Blk_either | Blk_result | Blk_out | Blk_err | Blk_transferred

type_synonym handle = nat

datatype sys_call =
    E_getaddrinfo string int
  | E_freeaddrinfo
  | E_socket int int int int
  | E_fcntl_setfl int int
  | E_fcntl_getfl int
  | E_connect int nat
  | E_poll int int int
  | E_close int
  | E_select int bool bool int

datatype mem_call =
    E_malloc block
  | E_malloc_bytes block int
  | E_realloc block int
  | E_store block int
  | E_free block

datatype session_call =
    E_libssh2_init int
  | E_libssh2_exit
  | E_session_init
  | E_session_set_blocking "handle option" int
  | E_session_set_timeout "handle option" int
  | E_session_handshake "handle option" int int
  | E_session_disconnect "handle option" string
  | E_session_free "handle option"
  | E_block_directions "handle option" int
  | E_session_last_errno "handle option" int

datatype auth_call =
    E_userauth_password "handle option" string string int
  | E_userauth_publickey_fromfile "handle option" string string string string int
  | E_userauth_publickey_frommemory "handle option" string nat string int string int string int

datatype channel_call =
    E_channel_open_session "handle option" "handle option"
  | E_channel_exec handle string int
  | E_channel_read handle int int int
  | E_channel_read_stderr handle int int int
  | E_channel_close handle int
  | E_channel_get_exit_status handle
  | E_channel_get_exit_signal handle
  | E_channel_free handle
  | E_scp_send "handle option" string int int "handle option"
  | E_channel_write handle int int int
  | E_channel_send_eof handle int

datatype event = Sys sys_call | Mem mem_call | Ssh session_call | Auth auth_call | Chan channel_call

text \<open>
  The retry idiom \<^verbatim>\<open>while((rc = call(...)) == LIBSSH2_ERROR_EAGAIN);\<close> of lines 137, 150,
  171, 194, 359, 360 and 361: the body of the loop is empty. The engine's successive return
  codes are a list; \<open>None\<close> says that the loop has not ended on the codes given.
\<close>

fun spin_while_eagain :: "(int \<Rightarrow> event) \<Rightarrow> int list \<Rightarrow> int option \<times> event list" where
  "spin_while_eagain call [] = (None, [])"
| "spin_while_eagain call (rc # rcs) =
     (if rc = LIBSSH2_ERROR_EAGAIN
      then (case spin_while_eagain call rcs of (r, tr) \<Rightarrow> (r, call rc # tr))
      else (Some rc, [call rc]))"

section \<open>Readiness waiter\<close>

text \<open>
  \<^verbatim>\<open>waitsocket\<close>, lines 26-48. \<open>dir\<close> is what \<^verbatim>\<open>libssh2_session_block_directions\<close>
  answers; the event of \<^verbatim>\<open>select\<close> records whether the read set and the write set are
  passed, and the ten seconds of the timeout. Every caller drops the value returned.
\<close>

definition waitsocket :: "int \<Rightarrow> handle option \<Rightarrow> int \<Rightarrow> event list" where
  "waitsocket socket_fd session dir =
     [Ssh (E_block_directions session dir),
      Sys (E_select (int_add socket_fd 1)
        (dir AND LIBSSH2_SESSION_BLOCK_INBOUND \<noteq> 0)
        (dir AND LIBSSH2_SESSION_BLOCK_OUTBOUND \<noteq> 0) 10)]"

section \<open>Socket connector\<close>

record addrinfo =
  ai_family :: int
  ai_socktype :: int
  ai_protocol :: int
  ai_addr :: nat

text \<open>
  Lines 70-73, the \<^verbatim>\<open>do ... while(sock == -1 && errno == EINTR)\<close> around
  \<^verbatim>\<open>socket\<close> and \<^verbatim>\<open>fcntl\<close>. Each entry of the script is the descriptor \<^verbatim>\<open>socket\<close>
  returns and the value of \<^verbatim>\<open>errno\<close> when the loop condition reads it. The arguments of
  \<^verbatim>\<open>socket\<close> are taken from \<open>res\<close>.
\<close>

fun socket_retry :: "addrinfo \<Rightarrow> (int \<times> int) list \<Rightarrow> int option \<times> (int \<times> int) list \<times> event list" where
  "socket_retry res [] = (None, [], [])"
| "socket_retry res ((s, e) # rest) =
     (let tr = [Sys (E_socket (ai_family res) (ai_socktype res) (ai_protocol res) s),
                Sys (E_fcntl_setfl s O_NONBLOCK)]
      in if s = - 1 \<and> e = EINTR
         then (case socket_retry res rest of (r, rest', tr') \<Rightarrow> (r, rest', tr @ tr'))
         else (Some s, rest, tr))"

text \<open>
  Lines 69-98. \<open>res\<close> is the head of the list \<^verbatim>\<open>getaddrinfo\<close> returned and the second
  argument is the rest of the list from \<^verbatim>\<open>current\<close> on. The body reads \<^verbatim>\<open>res->ai_family\<close>,
  \<^verbatim>\<open>res->ai_addr\<close> and so on, as the source does. Each entry of \<open>polls\<close> is the value
  \<^verbatim>\<open>poll\<close> returns and the \<^verbatim>\<open>revents\<close> it stores; \<open>flags\<close> is the answer of
  \<^verbatim>\<open>fcntl(sock, F_GETFL)\<close>. The first equation is the end of the loop, lines 97-98.
  \<open>None\<close> says that the function has not returned on the answers given.
\<close>

fun get_socket_loop ::
  "addrinfo \<Rightarrow> addrinfo list \<Rightarrow> int \<Rightarrow> (int \<times> int) list \<Rightarrow> (int \<times> int) list \<Rightarrow> int
     \<Rightarrow> int option \<times> event list" where
  "get_socket_loop res [] timeout socks polls flags = (Some (- 1), [Sys E_freeaddrinfo])"
| "get_socket_loop res (current # rest) timeout socks polls flags =
     (case socket_retry res socks of
        (None, socks', tr) \<Rightarrow> (None, tr)
      | (Some s, socks', tr) \<Rightarrow>
          if s = - 1
          then (case get_socket_loop res rest timeout socks' polls flags of
                  (r, tr') \<Rightarrow> (r, tr @ tr'))
          else
            (case polls of
               [] \<Rightarrow> (None, tr @ [Sys (E_connect s (ai_addr res))])
             | (rc, revents) # polls' \<Rightarrow>
                 (let tr1 = tr @ [Sys (E_connect s (ai_addr res)),
                                  Sys (E_poll s POLLIN (int_mul timeout 1000))]
                  in if rc = 0 \<or> rc = - 1
                     then (case get_socket_loop res rest timeout socks' polls' flags of
                             (r, tr') \<Rightarrow> (r, tr1 @ [Sys (E_close s)] @ tr'))
                     else if revents AND (POLLIN OR POLLPRI) \<noteq> 0
                     then (Some s, tr1 @ [Sys E_freeaddrinfo, Sys (E_fcntl_getfl s),
                                          Sys (E_fcntl_setfl s (flags AND NOT O_NONBLOCK))])
                     else (case get_socket_loop res rest timeout socks' polls' flags of
                             (r, tr') \<Rightarrow> (r, tr1 @ [Sys (E_close s)] @ tr')))))"

text \<open>
  \<^verbatim>\<open>get_socket\<close>, lines 50-99. \<open>gai_rc\<close> and \<open>gai_res\<close> are the return code of
  \<^verbatim>\<open>getaddrinfo\<close> and the list it stores in \<^verbatim>\<open>res\<close> (the empty list is \<^verbatim>\<open>NULL\<close>).
\<close>

definition get_socket ::
  "string \<Rightarrow> int \<Rightarrow> int \<Rightarrow> int \<Rightarrow> addrinfo list \<Rightarrow> (int \<times> int) list \<Rightarrow> (int \<times> int) list \<Rightarrow> int
     \<Rightarrow> int option \<times> event list" where
  "get_socket hostname port timeout gai_rc gai_res socks polls flags =
     (if gai_rc \<noteq> 0
      then (Some (- 1),
            Sys (E_getaddrinfo hostname port) # (if gai_res \<noteq> [] then [Sys E_freeaddrinfo] else []))
      else (case gai_res of
              [] \<Rightarrow> (Some (- 1), [Sys (E_getaddrinfo hostname port), Sys E_freeaddrinfo])
            | res # _ \<Rightarrow>
                (case get_socket_loop res gai_res timeout socks polls flags of
                   (r, tr) \<Rightarrow> (r, Sys (E_getaddrinfo hostname port) # tr))))"

section \<open>The either value and the session\<close>

text \<open>
  Modelled from the spec: the declarations of \<^verbatim>\<open>simplessh.h\<close> (the header is not among the
  sources). The error kinds are those the spec lists. \<^verbatim>\<open>struct simplessh_either\<close> is
  "a tagged union holding exactly one of a success value or an error kind": the tag
  \<open>side\<close> and the member \<open>u\<close>, a union of \<^verbatim>\<open>error\<close> and \<^verbatim>\<open>value\<close>, so that storing
  \<^verbatim>\<open>u.error\<close> replaces what \<^verbatim>\<open>u.value\<close> held. A success value is a pointer in the source;
  the model stores what it points to when the function returns.
\<close>

datatype simplessh_error =
  CONNECT | INIT | HANDSHAKE | AUTHENTICATION | CHANNEL_OPEN | CHANNEL_EXEC | READ | WRITE

datatype simplessh_either_side = LEFT | RIGHT

datatype 'v either_union = U_error simplessh_error | U_value 'v

record 'v simplessh_either =
  side :: simplessh_either_side
  u :: "'v either_union"

text \<open>The macro \<^verbatim>\<open>returnError\<close>, lines 15-20.\<close>

definition returnError :: "'v simplessh_either \<Rightarrow> simplessh_error \<Rightarrow> 'v simplessh_either" where
  "returnError either err = either\<lparr>side := LEFT, u := U_error err\<rparr>"

text \<open>
  \<^verbatim>\<open>struct simplessh_session\<close>: the socket descriptor and the engine handle, \<open>None\<close> for
  \<^verbatim>\<open>NULL\<close>.
\<close>

record simplessh_session =
  sock :: int
  lsession :: "handle option"

text \<open>\<^verbatim>\<open>simplessh_close_session\<close>, lines 365-371.\<close>

definition simplessh_close_session :: "simplessh_session \<Rightarrow> event list" where
  "simplessh_close_session session =
     [Ssh (E_session_disconnect (lsession session) ''simplessh_close_session''),
      Ssh (E_session_free (lsession session)),
      Sys (E_close (sock session)),
      Mem (E_free Blk_session),
      Ssh E_libssh2_exit]"

section \<open>Session lifecycle\<close>

text \<open>
  What the outside world answers during \<^verbatim>\<open>simplessh_open_session\<close>: the answers
  \<^verbatim>\<open>get_socket\<close> consumes, the handle \<^verbatim>\<open>libssh2_session_init\<close> returns (\<open>None\<close> for
  \<^verbatim>\<open>NULL\<close>) and the successive return codes of \<^verbatim>\<open>libssh2_session_handshake\<close>.
\<close>

record open_world =
  gai_rc :: int
  gai_res :: "addrinfo list"
  socket_answers :: "(int \<times> int) list"
  poll_answers :: "(int \<times> int) list"
  getfl_answer :: int
  session_init_answer :: "handle option"
  handshake_answers :: "int list"

text \<open>
  \<^verbatim>\<open>simplessh_open_session\<close>, lines 101-141. \<open>session_ptr\<close> is the pointer \<^verbatim>\<open>malloc\<close>
  returned at line 119, which line 132 tests; it is not \<^verbatim>\<open>NULL\<close>. The macro
  \<^verbatim>\<open>returnLocalErrorSP\<close> of lines 113-116 is \<^verbatim>\<open>simplessh_close_session\<close> followed by
  \<^verbatim>\<open>returnError\<close>. \<open>None\<close> says that the function has not returned on the answers given.
\<close>

definition simplessh_open_session ::
  "string \<Rightarrow> int \<Rightarrow> int \<Rightarrow> open_world
     \<Rightarrow> simplessh_session simplessh_either option \<times> event list" where
  "simplessh_open_session hostname port timeout w =
     (let tr0 = [Ssh (E_libssh2_init 0), Mem (E_malloc Blk_session), Mem (E_malloc Blk_either)]
      in case get_socket hostname port timeout (gai_rc w) (gai_res w)
                (socket_answers w) (poll_answers w) (getfl_answer w) of
           (None, tr1) \<Rightarrow> (None, tr0 @ tr1)
         | (Some fd, tr1) \<Rightarrow>
             (let session = \<lparr>sock = fd, lsession = None\<rparr>;
                  session_ptr = Some Blk_session;
                  either = \<lparr>side = RIGHT, u = U_value session\<rparr>
              in if sock session = - 1
                 then (Some (returnError either CONNECT), tr0 @ tr1)
                 else
                   (let session = session\<lparr>lsession := session_init_answer w\<rparr>;
                        either = either\<lparr>u := U_value session\<rparr>;
                        tr2 = tr0 @ tr1 @ [Ssh E_session_init]
                    in if session_ptr = None
                       then (Some (returnError either INIT), tr2 @ simplessh_close_session session)
                       else
                         (let tr3 = tr2 @
                                [Ssh (E_session_set_blocking (lsession session) 0),
                                 Ssh (E_session_set_timeout (lsession session) (int_mul timeout 1000))]
                          in case spin_while_eagain
                                    (\<lambda>rc. Ssh (E_session_handshake (lsession session) (sock session) rc))
                                    (handshake_answers w) of
                               (None, tr4) \<Rightarrow> (None, tr3 @ tr4)
                             | (Some rc, tr4) \<Rightarrow>
                                 if rc \<noteq> 0
                                 then (Some (returnError either HANDSHAKE),
                                       tr3 @ tr4 @ simplessh_close_session session)
                                 else (Some either, tr3 @ tr4)))))"

section \<open>Authentication\<close>

text \<open>
  Lines 143-204. Each function takes the successive return codes of its engine call.
\<close>

definition simplessh_authenticate_password ::
  "simplessh_session \<Rightarrow> string \<Rightarrow> string \<Rightarrow> int list
     \<Rightarrow> simplessh_session simplessh_either option \<times> event list" where
  "simplessh_authenticate_password session username password answers =
     (case spin_while_eagain
             (\<lambda>rc. Auth (E_userauth_password (lsession session) username password rc)) answers of
        (None, tr) \<Rightarrow> (None, Mem (E_malloc Blk_either) # tr)
      | (Some rc, tr) \<Rightarrow>
          (if rc \<noteq> 0
           then Some \<lparr>side = LEFT, u = U_error AUTHENTICATION\<rparr>
           else Some \<lparr>side = RIGHT, u = U_value session\<rparr>,
           Mem (E_malloc Blk_either) # tr))"

definition simplessh_authenticate_key ::
  "simplessh_session \<Rightarrow> string \<Rightarrow> string \<Rightarrow> string \<Rightarrow> string \<Rightarrow> int list
     \<Rightarrow> simplessh_session simplessh_either option \<times> event list" where
  "simplessh_authenticate_key session username public_key_path private_key_path passphrase answers =
     (case spin_while_eagain
             (\<lambda>rc. Auth (E_userauth_publickey_fromfile (lsession session) username
                           public_key_path private_key_path passphrase rc)) answers of
        (None, tr) \<Rightarrow> (None, Mem (E_malloc Blk_either) # tr)
      | (Some rc, tr) \<Rightarrow>
          (if rc \<noteq> 0
           then Some \<lparr>side = LEFT, u = U_error AUTHENTICATION\<rparr>
           else Some \<lparr>side = RIGHT, u = U_value session\<rparr>,
           Mem (E_malloc Blk_either) # tr))"

definition simplessh_authenticate_memory ::
  "simplessh_session \<Rightarrow> string \<Rightarrow> string \<Rightarrow> int \<Rightarrow> string \<Rightarrow> int \<Rightarrow> string \<Rightarrow> int list
     \<Rightarrow> simplessh_session simplessh_either option \<times> event list" where
  "simplessh_authenticate_memory session username public_key public_key_len
       private_key private_key_len passphrase answers =
     (case spin_while_eagain
             (\<lambda>rc. Auth (E_userauth_publickey_frommemory (lsession session) username
                           (length username) public_key public_key_len
                           private_key private_key_len passphrase rc)) answers of
        (None, tr) \<Rightarrow> (None, Mem (E_malloc Blk_either) # tr)
      | (Some rc, tr) \<Rightarrow>
          (if rc \<noteq> 0
           then Some \<lparr>side = LEFT, u = U_error AUTHENTICATION\<rparr>
           else Some \<lparr>side = RIGHT, u = U_value session\<rparr>,
           Mem (E_malloc Blk_either) # tr))"

section \<open>Loops that wait for the socket\<close>

text \<open>
  The result of a retry loop: it has not ended on the answers given, it met a hard error,
  or it completed.
\<close>

datatype 'a loop_result = Pending | Hard_error | Completed 'a

text \<open>
  Lines 235-240 and 337-343: \<^verbatim>\<open>while((channel = open(...)) == NULL)\<close>, where the body
  calls \<^verbatim>\<open>waitsocket\<close> if \<^verbatim>\<open>libssh2_session_last_errno\<close> is the would-block code and
  returns the error otherwise. An answer is the channel returned (\<open>None\<close> for \<^verbatim>\<open>NULL\<close>),
  the last error number of the session and the directions the engine reports blocked.
\<close>

fun channel_open_loop ::
  "(handle option \<Rightarrow> event) \<Rightarrow> simplessh_session \<Rightarrow> (handle option \<times> int \<times> int) list
     \<Rightarrow> handle loop_result \<times> event list" where
  "channel_open_loop call session [] = (Pending, [])"
| "channel_open_loop call session ((channel, last_errno, dir) # answers) =
     (case channel of
        Some c \<Rightarrow> (Completed c, [call channel])
      | None \<Rightarrow>
          (let tr = [call channel, Ssh (E_session_last_errno (lsession session) last_errno)]
           in if last_errno = LIBSSH2_ERROR_EAGAIN
              then (case channel_open_loop call session answers of
                      (r, tr') \<Rightarrow> (r, tr @ waitsocket (sock session) (lsession session) dir @ tr'))
              else (Hard_error, tr)))"

text \<open>
  Lines 243-249: \<^verbatim>\<open>while((rc = libssh2_channel_exec(channel, command)) != 0)\<close>. An answer
  is the return code and the directions the engine reports blocked.
\<close>

fun channel_exec_loop ::
  "simplessh_session \<Rightarrow> handle \<Rightarrow> string \<Rightarrow> (int \<times> int) list \<Rightarrow> unit loop_result \<times> event list" where
  "channel_exec_loop session channel command [] = (Pending, [])"
| "channel_exec_loop session channel command ((rc, dir) # answers) =
     (if rc \<noteq> 0
      then (if rc = LIBSSH2_ERROR_EAGAIN
            then (case channel_exec_loop session channel command answers of
                    (r, tr') \<Rightarrow> (r, Chan (E_channel_exec channel command rc)
                                    # waitsocket (sock session) (lsession session) dir @ tr'))
            else (Hard_error, [Chan (E_channel_exec channel command rc)]))
      else (Completed (), [Chan (E_channel_exec channel command rc)]))"

text \<open>
  Lines 296-297: \<^verbatim>\<open>while((rc = libssh2_channel_close(channel)) == LIBSSH2_ERROR_EAGAIN)
  waitsocket(...)\<close>. The result is the last return code.
\<close>

fun channel_close_loop ::
  "simplessh_session \<Rightarrow> handle \<Rightarrow> (int \<times> int) list \<Rightarrow> int option \<times> event list" where
  "channel_close_loop session channel [] = (None, [])"
| "channel_close_loop session channel ((rc, dir) # answers) =
     (if rc = LIBSSH2_ERROR_EAGAIN
      then (case channel_close_loop session channel answers of
              (r, tr') \<Rightarrow> (r, Chan (E_channel_close channel rc)
                              # waitsocket (sock session) (lsession session) dir @ tr'))
      else (Some rc, [Chan (E_channel_close channel rc)]))"

section \<open>Command executor\<close>

text \<open>
  Modelled from the spec: \<^verbatim>\<open>struct simplessh_result\<close> of the absent header, "captured
  standard-output bytes, captured standard-error bytes, a numeric exit code and an optional
  exit-signal name". The bytes themselves are not modelled: \<open>out\<close> and \<open>err\<close> hold the
  size in bytes of the block the pointer refers to, \<open>None\<close> for \<^verbatim>\<open>NULL\<close>.
\<close>

record simplessh_result =
  out :: "int option"
  err :: "int option"
  exit_code :: int
  exit_signal :: "string option"

text \<open>
  The local variables of the drain loop, line 252, and with them the sizes in bytes of
  the blocks \<^verbatim>\<open>out\<close> and \<^verbatim>\<open>err\<close> point to, as last passed to \<^verbatim>\<open>malloc\<close> or
  \<^verbatim>\<open>realloc\<close>.
\<close>

record drain_state =
  out_size :: int
  out_position :: int
  err_size :: int
  err_position :: int
  out_block :: int
  err_block :: int

text \<open>Lines 252-254.\<close>

definition drain_init :: drain_state where
  "drain_init =
     \<lparr>out_size = 128, out_position = 0, err_size = 128, err_position = 0,
      out_block = size_t_of 128, err_block = size_t_of 128\<rparr>"

text \<open>Lines 272-278, for a return code \<open>rc\<close> of the read of standard output.\<close>

definition advance_out :: "drain_state \<Rightarrow> int \<Rightarrow> drain_state \<times> event list" where
  "advance_out st rc =
     (if rc > 0
      then (let st1 = st\<lparr>out_position := int_add (out_position st) rc\<rparr>
            in if int_sub (out_size st1) (out_position st1) < 1024
               then (let st2 = st1\<lparr>out_size :=
                                     min_c (int_mul (out_size st1) 2) (int_add (out_size st1) 65536)\<rparr>
                     in (st2\<lparr>out_block := size_t_of (out_size st2)\<rparr>,
                         [Mem (E_realloc Blk_out (size_t_of (out_size st2)))]))
               else (st1, []))
      else (st, []))"

text \<open>Lines 279-285, for a return code \<open>rc2\<close> of the read of standard error.\<close>

definition advance_err :: "drain_state \<Rightarrow> int \<Rightarrow> drain_state \<times> event list" where
  "advance_err st rc2 =
     (if rc2 > 0
      then (let st1 = st\<lparr>err_position := int_add (err_position st) rc2\<rparr>
            in if int_sub (err_size st1) (err_position st1) < 1024
               then (let st2 = st1\<lparr>err_size :=
                                     min_c (int_mul (err_size st1) 2) (int_add (err_size st1) 65536)\<rparr>
                     in (st2\<lparr>err_block := size_t_of (err_size st2)\<rparr>,
                         [Mem (E_realloc Blk_err (size_t_of (err_size st2)))]))
               else (st1, []))
      else (st, []))"

text \<open>
  The two reads of one iteration, lines 257-262: the offset into the buffer, the length
  asked for and the return code.
\<close>

definition drain_reads :: "handle \<Rightarrow> drain_state \<Rightarrow> int \<Rightarrow> int \<Rightarrow> event list" where
  "drain_reads channel st rc rc2 =
     [Chan (E_channel_read channel (out_position st)
              (int_sub (int_sub (out_size st) (out_position st)) 1) rc),
      Chan (E_channel_read_stderr channel (err_position st)
              (int_sub (int_sub (err_size st) (err_position st)) 1) rc2)]"

text \<open>The branches of lines 264-286, in the order of the source.\<close>

datatype drain_branch = Drain_break | Drain_wait | Drain_read_error | Drain_advance

definition drain_branch_of :: "int \<Rightarrow> int \<Rightarrow> drain_branch" where
  "drain_branch_of rc rc2 =
     (if rc = 0 \<and> rc2 = 0 then Drain_break
      else if rc = LIBSSH2_ERROR_EAGAIN \<and> rc2 = LIBSSH2_ERROR_EAGAIN then Drain_wait
      else if (rc < 0 \<and> rc \<noteq> LIBSSH2_ERROR_EAGAIN) \<or> (rc2 < 0 \<and> rc2 \<noteq> LIBSSH2_ERROR_EAGAIN)
      then Drain_read_error
      else Drain_advance)"

text \<open>
  The loop of lines 256-287. An answer is the return code of the read of standard output,
  that of the read of standard error, and the directions the engine reports blocked. The
  state returned is that of the local variables when the loop ends, or when the answers
  end.
\<close>

fun drain_loop ::
  "simplessh_session \<Rightarrow> handle \<Rightarrow> drain_state \<Rightarrow> (int \<times> int \<times> int) list
     \<Rightarrow> unit loop_result \<times> drain_state \<times> event list" where
  "drain_loop session channel st [] = (Pending, st, [])"
| "drain_loop session channel st ((rc, rc2, dir) # answers) =
     (case drain_branch_of rc rc2 of
        Drain_break \<Rightarrow> (Completed (), st, drain_reads channel st rc rc2)
      | Drain_wait \<Rightarrow>
          (case drain_loop session channel st answers of
             (r, st', tr) \<Rightarrow>
               (r, st', drain_reads channel st rc rc2
                        @ waitsocket (sock session) (lsession session) dir @ tr))
      | Drain_read_error \<Rightarrow> (Hard_error, st, drain_reads channel st rc rc2)
      | Drain_advance \<Rightarrow>
          (case advance_out st rc of
             (st1, tr1) \<Rightarrow>
               (case advance_err st1 rc2 of
                  (st2, tr2) \<Rightarrow>
                    (case drain_loop session channel st2 answers of
                       (r, st', tr) \<Rightarrow>
                         (r, st', drain_reads channel st rc rc2 @ tr1 @ tr2 @ tr)))))"

text \<open>
  Lines 288-294: the terminating zero is stored at the fill position, the block is
  shrunk, and the buffer is attached to the result.
\<close>

definition finish_buffers :: "drain_state \<Rightarrow> simplessh_result \<Rightarrow> simplessh_result \<times> event list" where
  "finish_buffers st result =
     (result\<lparr>out := Some (size_t_of (int_add (out_position st) 1)),
             err := Some (size_t_of (int_add (err_position st) 1))\<rparr>,
      [Mem (E_store Blk_out (out_position st)),
       Mem (E_realloc Blk_out (size_t_of (int_add (out_position st) 1))),
       Mem (E_store Blk_err (err_position st)),
       Mem (E_realloc Blk_err (size_t_of (int_add (err_position st) 1)))])"

text \<open>
  The macro \<^verbatim>\<open>returnLocalErrorC\<close>, lines 228-233. Its first two arguments are the local
  pointers \<^verbatim>\<open>out\<close> and \<^verbatim>\<open>err\<close>, \<open>None\<close> for \<^verbatim>\<open>NULL\<close>.
\<close>

definition returnLocalErrorC ::
  "block option \<Rightarrow> block option \<Rightarrow> 'v simplessh_either \<Rightarrow> simplessh_error
     \<Rightarrow> 'v simplessh_either \<times> event list" where
  "returnLocalErrorC out_ptr err_ptr either error =
     (returnError either error,
      (case out_ptr of Some b \<Rightarrow> [Mem (E_free b)] | None \<Rightarrow> [])
      @ (case err_ptr of Some b \<Rightarrow> [Mem (E_free b)] | None \<Rightarrow> [])
      @ [Mem (E_free Blk_result)])"

text \<open>
  What the engine answers during \<^verbatim>\<open>simplessh_exec_command\<close>, one list for each loop, and
  the exit status and the exit signal the channel reports.
\<close>

record exec_world =
  channel_open_answers :: "(handle option \<times> int \<times> int) list"
  channel_exec_answers :: "(int \<times> int) list"
  read_answers :: "(int \<times> int \<times> int) list"
  channel_close_answers :: "(int \<times> int) list"
  exit_status_answer :: int
  exit_signal_answer :: "string option"

text \<open>
  \<^verbatim>\<open>simplessh_exec_command\<close>, lines 206-311. \<open>None\<close> says that the function has not
  returned on the answers given.
\<close>

definition simplessh_exec_command ::
  "simplessh_session \<Rightarrow> string \<Rightarrow> exec_world
     \<Rightarrow> simplessh_result simplessh_either option \<times> event list" where
  "simplessh_exec_command session command w =
     (let result = \<lparr>out = None, err = None, exit_code = 127, exit_signal = None\<rparr>;
          either = \<lparr>side = RIGHT, u = U_value result\<rparr>;
          tr0 = [Mem (E_malloc Blk_result), Mem (E_malloc Blk_either)]
      in case channel_open_loop (\<lambda>c. Chan (E_channel_open_session (lsession session) c))
                session (channel_open_answers w) of
           (Pending, tr1) \<Rightarrow> (None, tr0 @ tr1)
         | (Hard_error, tr1) \<Rightarrow>
             (case returnLocalErrorC None None either CHANNEL_OPEN of
                (e, trf) \<Rightarrow> (Some e, tr0 @ tr1 @ trf))
         | (Completed channel, tr1) \<Rightarrow>
             (case channel_exec_loop session channel command (channel_exec_answers w) of
                (Pending, tr2) \<Rightarrow> (None, tr0 @ tr1 @ tr2)
              | (Hard_error, tr2) \<Rightarrow>
                  (case returnLocalErrorC None None either CHANNEL_EXEC of
                     (e, trf) \<Rightarrow> (Some e, tr0 @ tr1 @ tr2 @ trf))
              | (Completed _, tr2) \<Rightarrow>
                  (let tr3 = tr0 @ tr1 @ tr2 @
                         [Mem (E_malloc_bytes Blk_out (out_block drain_init)),
                          Mem (E_malloc_bytes Blk_err (err_block drain_init))]
                   in case drain_loop session channel drain_init (read_answers w) of
                        (Pending, st, tr4) \<Rightarrow> (None, tr3 @ tr4)
                      | (Hard_error, st, tr4) \<Rightarrow>
                          (case returnLocalErrorC (Some Blk_out) (Some Blk_err) either READ of
                             (e, trf) \<Rightarrow> (Some e, tr3 @ tr4 @ trf))
                      | (Completed _, st, tr4) \<Rightarrow>
                          (case finish_buffers st result of
                             (result1, tr5) \<Rightarrow>
                               (case channel_close_loop session channel (channel_close_answers w) of
                                  (None, tr6) \<Rightarrow> (None, tr3 @ tr4 @ tr5 @ tr6)
                                | (Some rc, tr6) \<Rightarrow>
                                    (if rc = 0
                                     then (Some (either\<lparr>u := U_value
                                                    (result1\<lparr>exit_code := exit_status_answer w,
                                                             exit_signal := exit_signal_answer w\<rparr>)\<rparr>),
                                           tr3 @ tr4 @ tr5 @ tr6 @
                                           [Chan (E_channel_get_exit_status channel),
                                            Chan (E_channel_get_exit_signal channel),
                                            Chan (E_channel_free channel)])
                                     else (Some (either\<lparr>u := U_value result1\<rparr>),
                                           tr3 @ tr4 @ tr5 @ tr6 @
                                           [Chan (E_channel_free channel)])))))))"

section \<open>File uploader\<close>

text \<open>Line 347: the size of the next chunk, converted to \<^verbatim>\<open>size_t\<close>.\<close>

definition chunk_size :: "int \<Rightarrow> int \<Rightarrow> int" where
  "chunk_size data_len transferred =
     size_t_of (min_c (int_sub data_len transferred) (int_mul 16 1024))"

datatype send_result = Send_pending | Send_stalled | Send_write_error | Send_complete

text \<open>
  The transfer loops of lines 346-357, entered with \<open>n\<close> bytes of the current chunk left
  (\<open>n > 0\<close>) and \<open>transferred\<close> bytes sent. One step of the recursion is one call of
  \<^verbatim>\<open>libssh2_channel_write\<close> at line 351, whose return code is the head of the answers:
  the would-block code repeats the call at once (the loop of line 351 has an empty body);
  a negative code returns through \<^verbatim>\<open>returnLocalErrorS(WRITE)\<close>; otherwise lines 353-355
  update \<^verbatim>\<open>n\<close>, \<^verbatim>\<open>current\<close> and \<^verbatim>\<open>*transferred\<close>, and the conditions of line 350 and
  then of line 346 decide whether the same chunk goes on, a new chunk starts or the
  transfer is complete. \<open>Send_stalled\<close> is the outer loop repeating without a write, with
  a chunk size of zero. The second component is \<^verbatim>\<open>*transferred\<close>.
\<close>

fun write_loop ::
  "handle \<Rightarrow> int \<Rightarrow> int \<Rightarrow> int \<Rightarrow> int list \<Rightarrow> send_result \<times> int \<times> event list" where
  "write_loop channel data_len n transferred [] = (Send_pending, transferred, [])"
| "write_loop channel data_len n transferred (rc # answers) =
     (if rc = LIBSSH2_ERROR_EAGAIN
      then (case write_loop channel data_len n transferred answers of
              (r, t, tr) \<Rightarrow> (r, t, Chan (E_channel_write channel transferred n rc) # tr))
      else if rc < 0
      then (Send_write_error, transferred, [Chan (E_channel_write channel transferred n rc)])
      else
        (let n' = size_t_of (n - rc);
             transferred' = int_add transferred rc
         in if n' > 0
            then (case write_loop channel data_len n' transferred' answers of
                    (r, t, tr) \<Rightarrow> (r, t, Chan (E_channel_write channel transferred n rc) # tr))
            else if transferred' < data_len
            then (if chunk_size data_len transferred' > 0
                  then (case write_loop channel data_len (chunk_size data_len transferred')
                               transferred' answers of
                          (r, t, tr) \<Rightarrow>
                            (r, t, Chan (E_channel_write channel transferred n rc) # tr))
                  else (Send_stalled, transferred',
                        [Chan (E_channel_write channel transferred n rc)]))
            else (Send_complete, transferred',
                  [Chan (E_channel_write channel transferred n rc)])))"

text \<open>Lines 345-357 from \<^verbatim>\<open>*transferred = 0\<close>: the first test of line 346, then the loops.\<close>

definition transfer :: "handle \<Rightarrow> int \<Rightarrow> int list \<Rightarrow> send_result \<times> int \<times> event list" where
  "transfer channel data_len answers =
     (if 0 < data_len
      then (if chunk_size data_len 0 > 0
            then write_loop channel data_len (chunk_size data_len 0) 0 answers
            else (Send_stalled, 0, []))
      else (Send_complete, 0, []))"

text \<open>
  The macro \<^verbatim>\<open>returnLocalErrorS\<close>, lines 330-335. Its first argument is the local pointer
  \<^verbatim>\<open>channel\<close>.
\<close>

definition returnLocalErrorS ::
  "handle option \<Rightarrow> 'v simplessh_either \<Rightarrow> simplessh_error \<Rightarrow> 'v simplessh_either \<times> event list" where
  "returnLocalErrorS channel either error =
     (either\<lparr>side := LEFT, u := U_error error\<rparr>,
      (case channel of Some c \<Rightarrow> [Chan (E_channel_free c)] | None \<Rightarrow> []))"

text \<open>
  What the engine answers during \<^verbatim>\<open>simplessh_send_file\<close>, one list for each loop.
\<close>

record send_world =
  scp_send_answers :: "(handle option \<times> int \<times> int) list"
  write_answers :: "int list"
  send_eof_answers :: "int list"
  close_answers :: "int list"
  free_answers :: "int list"

text \<open>
  \<^verbatim>\<open>simplessh_send_file\<close>, lines 313-363. The payload bytes are not modelled, only their
  number \<open>data_len\<close>. The result is the either value returned (\<open>None\<close> if the function has
  not returned on the answers given), the content of the cell \<^verbatim>\<open>transferred\<close> points to,
  and the events. The success value \<^verbatim>\<open>u.value\<close> is the pointer to that cell.
\<close>

definition simplessh_send_file ::
  "simplessh_session \<Rightarrow> int \<Rightarrow> int \<Rightarrow> string \<Rightarrow> send_world
     \<Rightarrow> int simplessh_either option \<times> int \<times> event list" where
  "simplessh_send_file session mode data_len destination_path w =
     (let tr0 = [Mem (E_malloc Blk_transferred), Mem (E_malloc Blk_either)];
          either = \<lparr>side = RIGHT, u = U_value (0 :: int)\<rparr>
      in case channel_open_loop
                (\<lambda>c. Chan (E_scp_send (lsession session) destination_path (mode AND 511) data_len c))
                session (scp_send_answers w) of
           (Pending, tr1) \<Rightarrow> (None, 0, tr0 @ tr1)
         | (Hard_error, tr1) \<Rightarrow>
             (case returnLocalErrorS None either CHANNEL_OPEN of
                (e, trf) \<Rightarrow> (Some e, 0, tr0 @ tr1 @ trf))
         | (Completed channel, tr1) \<Rightarrow>
             (case transfer channel data_len (write_answers w) of
                (Send_pending, t, tr2) \<Rightarrow> (None, t, tr0 @ tr1 @ tr2)
              | (Send_stalled, t, tr2) \<Rightarrow> (None, t, tr0 @ tr1 @ tr2)
              | (Send_write_error, t, tr2) \<Rightarrow>
                  (case returnLocalErrorS (Some channel) either WRITE of
                     (e, trf) \<Rightarrow> (Some e, t, tr0 @ tr1 @ tr2 @ trf))
              | (Send_complete, t, tr2) \<Rightarrow>
                  (case spin_while_eagain (\<lambda>rc. Chan (E_channel_send_eof channel rc))
                          (send_eof_answers w) of
                     (None, tr3) \<Rightarrow> (None, t, tr0 @ tr1 @ tr2 @ tr3)
                   | (Some _, tr3) \<Rightarrow>
                       (case spin_while_eagain (\<lambda>rc. Chan (E_channel_close channel rc))
                               (close_answers w) of
                          (None, tr4) \<Rightarrow> (None, t, tr0 @ tr1 @ tr2 @ tr3 @ tr4)
                        | (Some _, tr4) \<Rightarrow>
                            (case spin_while_eagain (\<lambda>rc. Chan (E_channel_free channel))
                                    (free_answers w) of
                               (None, tr5) \<Rightarrow> (None, t, tr0 @ tr1 @ tr2 @ tr3 @ tr4 @ tr5)
                             | (Some _, tr5) \<Rightarrow>
                                 (Some (either\<lparr>u := U_value t\<rparr>), t,
                                  tr0 @ tr1 @ tr2 @ tr3 @ tr4 @ tr5))))))"

section \<open>Reading a trace\<close>

text \<open>
  The calls of \<^verbatim>\<open>libssh2_channel_write\<close> in a trace, in order: the offset into the
  payload, the number of bytes offered and the return code.
\<close>

datatype write_io = Io_write int int int

fun write_of :: "event \<Rightarrow> write_io list" where
  "write_of (Chan (E_channel_write c off n rc)) = [Io_write off n rc]"
| "write_of _ = []"

definition writes :: "event list \<Rightarrow> write_io list" where
  "writes tr = concat (map write_of tr)"

text \<open>The bytes the engine accepted: the sum of the return codes that are not negative.\<close>

fun io_accepted :: "write_io \<Rightarrow> int" where
  "io_accepted (Io_write off n rc) = (if rc < 0 then 0 else rc)"

definition accepted_bytes :: "event list \<Rightarrow> int" where
  "accepted_bytes tr = sum_list (map io_accepted (writes tr))"

text \<open>A write returned a hard error: a negative code other than the would-block code.\<close>

fun write_hard_error :: "write_io \<Rightarrow> bool" where
  "write_hard_error (Io_write off n rc) = (rc < 0 \<and> rc \<noteq> LIBSSH2_ERROR_EAGAIN)"

text \<open>The engine's side of a write: it never accepts more bytes than were offered.\<close>

fun write_within_request :: "write_io \<Rightarrow> bool" where
  "write_within_request (Io_write off n rc) = (rc \<le> n)"

text \<open>
  A write offers at most the rest of the payload and at most 16 KiB, counted from the
  offset at which it starts.
\<close>

fun write_within_chunk :: "int \<Rightarrow> write_io \<Rightarrow> bool" where
  "write_within_chunk data_len (Io_write off n rc) = (n \<le> min (data_len - off) (16 * 1024))"

text \<open>
  What the drain loop does to the outside, as seen in a trace: a read of standard output
  or of standard error, with the length asked for and the return code, and the readiness
  poll \<^verbatim>\<open>select\<close> of \<^verbatim>\<open>waitsocket\<close>.
\<close>

datatype drain_io = Io_read_out int int | Io_read_err int int | Io_wait

fun drain_io_of :: "event \<Rightarrow> drain_io list" where
  "drain_io_of (Chan (E_channel_read c off len rc)) = [Io_read_out len rc]"
| "drain_io_of (Chan (E_channel_read_stderr c off len rc)) = [Io_read_err len rc]"
| "drain_io_of (Sys (E_select nfds r w t)) = [Io_wait]"
| "drain_io_of _ = []"

definition drain_ios :: "event list \<Rightarrow> drain_io list" where
  "drain_ios tr = concat (map drain_io_of tr)"

text \<open>A read returned a hard error: a negative code other than the would-block code.\<close>

fun io_hard_error :: "drain_io \<Rightarrow> bool" where
  "io_hard_error (Io_read_out len rc) = (rc < 0 \<and> rc \<noteq> LIBSSH2_ERROR_EAGAIN)"
| "io_hard_error (Io_read_err len rc) = (rc < 0 \<and> rc \<noteq> LIBSSH2_ERROR_EAGAIN)"
| "io_hard_error Io_wait = False"

text \<open>The engine's side of a read: it never returns more bytes than were asked for.\<close>

fun io_within_request :: "drain_io \<Rightarrow> bool" where
  "io_within_request (Io_read_out len rc) = (rc \<le> len)"
| "io_within_request (Io_read_err len rc) = (rc \<le> len)"
| "io_within_request Io_wait = True"

fun io_length_nonneg :: "drain_io \<Rightarrow> bool" where
  "io_length_nonneg (Io_read_out len rc) = (0 \<le> len)"
| "io_length_nonneg (Io_read_err len rc) = (0 \<le> len)"
| "io_length_nonneg Io_wait = True"

text \<open>The bytes delivered on each stream, over a whole trace.\<close>

fun io_out_bytes :: "drain_io \<Rightarrow> int" where
  "io_out_bytes (Io_read_out len rc) = max 0 rc"
| "io_out_bytes _ = 0"

fun io_err_bytes :: "drain_io \<Rightarrow> int" where
  "io_err_bytes (Io_read_err len rc) = max 0 rc"
| "io_err_bytes _ = 0"

definition out_bytes :: "event list \<Rightarrow> int" where
  "out_bytes tr = sum_list (map io_out_bytes (drain_ios tr))"

definition err_bytes :: "event list \<Rightarrow> int" where
  "err_bytes tr = sum_list (map io_err_bytes (drain_ios tr))"

text \<open>
  The calls of the drain loop in a trace, with what each was given and what it returned:
  the return code of a read of standard output or of standard error; the session asked
  for its blocked directions and its answer; and \<^verbatim>\<open>select\<close> with its first argument,
  whether the read set and the write set are passed, and the seconds of its timeout.
\<close>

datatype drain_call =
    Call_read_out int
  | Call_read_err int
  | Call_directions "handle option" int
  | Call_select int bool bool int

fun drain_call_of :: "event \<Rightarrow> drain_call list" where
  "drain_call_of (Chan (E_channel_read c off len rc)) = [Call_read_out rc]"
| "drain_call_of (Chan (E_channel_read_stderr c off len rc)) = [Call_read_err rc]"
| "drain_call_of (Ssh (E_block_directions s dir)) = [Call_directions s dir]"
| "drain_call_of (Sys (E_select nfds r w t)) = [Call_select nfds r w t]"
| "drain_call_of _ = []"

definition drain_calls :: "event list \<Rightarrow> drain_call list" where
  "drain_calls tr = concat (map drain_call_of tr)"

text \<open>
  The shape of a drain trace for the socket \<open>fd\<close> and the engine session \<open>s\<close>: it is a
  sequence of iterations, each of which reads standard output and then standard error.
  After an iteration in which both reads return zero nothing follows. After one in which
  both return the would-block code the wait on the socket follows: the session \<open>s\<close> is
  asked for its blocked directions, and \<^verbatim>\<open>select\<close> is called on the descriptors up to
  \<open>fd\<close>, with the read set exactly if the inbound direction is reported, the write set
  exactly if the outbound direction is reported, and a timeout of ten seconds. After any
  other iteration the next one follows at once.
\<close>

fun iterations_ok :: "int \<Rightarrow> handle option \<Rightarrow> drain_call list \<Rightarrow> bool" where
  "iterations_ok fd s [] = True"
| "iterations_ok fd s (Call_read_out rc # Call_read_err rc2 # calls) =
     (if rc = 0 \<and> rc2 = 0 then calls = []
      else if rc = LIBSSH2_ERROR_EAGAIN \<and> rc2 = LIBSSH2_ERROR_EAGAIN
      then (case calls of
              Call_directions s' dir # Call_select nfds r w t # calls' \<Rightarrow>
                s' = s \<and> nfds = int_add fd 1
                \<and> r = (dir AND LIBSSH2_SESSION_BLOCK_INBOUND \<noteq> 0)
                \<and> w = (dir AND LIBSSH2_SESSION_BLOCK_OUTBOUND \<noteq> 0)
                \<and> t = 10 \<and> iterations_ok fd s calls'
            | _ \<Rightarrow> False)
      else iterations_ok fd s calls)"
| "iterations_ok fd s _ = False"

text \<open>The return codes of \<^verbatim>\<open>libssh2_channel_close\<close> in a trace, in order.\<close>

fun close_code_of :: "event \<Rightarrow> int list" where
  "close_code_of (Chan (E_channel_close c rc)) = [rc]"
| "close_code_of _ = []"

definition close_codes :: "event list \<Rightarrow> int list" where
  "close_codes tr = concat (map close_code_of tr)"

section \<open>Evaluation on concrete answers\<close>

lemmas hdr_defs =
  LIBSSH2_ERROR_EAGAIN_def LIBSSH2_SESSION_BLOCK_INBOUND_def LIBSSH2_SESSION_BLOCK_OUTBOUND_def
  EINTR_def O_NONBLOCK_def POLLIN_def POLLPRI_def

lemmas cint_defs = wrap32_def int_add_def int_sub_def int_mul_def size_t_of_def min_c_def

text \<open>
  C1. The claim: an operation that returned the would-block code is never issued again
  without a readiness wait in between. The source does not do this at lines 137, 150, 171,
  194, 351 and 359-361. In the first run below the handshake answers would-block once and
  then succeeds: the two calls of \<^verbatim>\<open>libssh2_session_handshake\<close> are adjacent in the
  trace, with no \<^verbatim>\<open>select\<close> between them. In the second run a write and the end-of-file
  request each answer would-block once: each is repeated at once, while the would-block of
  \<^verbatim>\<open>libssh2_scp_send\<close> in the same run is followed by \<^verbatim>\<open>select\<close>.
\<close>

theorem C1_retry_without_readiness_wait:
  "simplessh_open_session ''host'' 22 5
     \<lparr>gai_rc = 0, gai_res = [\<lparr>ai_family = 2, ai_socktype = 1, ai_protocol = 6, ai_addr = 1\<rparr>],
      socket_answers = [(3, 0)], poll_answers = [(1, 1)], getfl_answer = 2050,
      session_init_answer = Some 7, handshake_answers = [- 37, 0]\<rparr> =
   (Some \<lparr>side = RIGHT, u = U_value \<lparr>sock = 3, lsession = Some 7\<rparr>\<rparr>,
    [Ssh (E_libssh2_init 0), Mem (E_malloc Blk_session), Mem (E_malloc Blk_either),
     Sys (E_getaddrinfo ''host'' 22), Sys (E_socket 2 1 6 3), Sys (E_fcntl_setfl 3 2048),
     Sys (E_connect 3 1), Sys (E_poll 3 1 5000), Sys E_freeaddrinfo, Sys (E_fcntl_getfl 3),
     Sys (E_fcntl_setfl 3 2), Ssh E_session_init,
     Ssh (E_session_set_blocking (Some 7) 0), Ssh (E_session_set_timeout (Some 7) 5000),
     Ssh (E_session_handshake (Some 7) 3 (- 37)),
     Ssh (E_session_handshake (Some 7) 3 0)])
   \<and>
   simplessh_send_file \<lparr>sock = 3, lsession = Some 7\<rparr> 420 10 ''/tmp/f''
     \<lparr>scp_send_answers = [(None, - 37, 2), (Some 9, 0, 0)], write_answers = [4, - 37, 6],
      send_eof_answers = [- 37, 0], close_answers = [0], free_answers = [0]\<rparr> =
   (Some \<lparr>side = RIGHT, u = U_value 10\<rparr>, 10,
    [Mem (E_malloc Blk_transferred), Mem (E_malloc Blk_either),
     Chan (E_scp_send (Some 7) ''/tmp/f'' 420 10 None),
     Ssh (E_session_last_errno (Some 7) (- 37)),
     Ssh (E_block_directions (Some 7) 2), Sys (E_select 4 False True 10),
     Chan (E_scp_send (Some 7) ''/tmp/f'' 420 10 (Some 9)),
     Chan (E_channel_write 9 0 10 4),
     Chan (E_channel_write 9 4 6 (- 37)),
     Chan (E_channel_write 9 4 6 6),
     Chan (E_channel_send_eof 9 (- 37)),
     Chan (E_channel_send_eof 9 0),
     Chan (E_channel_close 9 0),
     Chan (E_channel_free 9)])"
  by (simp add: simplessh_open_session_def get_socket_def simplessh_send_file_def transfer_def
      chunk_size_def waitsocket_def hdr_defs cint_defs)

text \<open>
  C2. The claim: for every candidate address the connector opens a socket with that
  candidate's family, type and protocol and connects to that candidate's own address. The
  loop of lines 69-95 advances \<^verbatim>\<open>current\<close> but reads \<^verbatim>\<open>res\<close>, the head of the list, at
  lines 71 and 76. In the run below the host resolves to two candidates, of family 2 at
  address 1 and of family 10 at address 2; the poll for the first times out. The second
  socket is again of family 2 and is again connected to address 1, and it is the one
  returned, in blocking mode.
\<close>

theorem C2_every_attempt_uses_first_candidate:
  "get_socket ''host'' 22 5 0
      [\<lparr>ai_family = 2, ai_socktype = 1, ai_protocol = 6, ai_addr = 1\<rparr>,
       \<lparr>ai_family = 10, ai_socktype = 1, ai_protocol = 6, ai_addr = 2\<rparr>]
      [(3, 0), (4, 0)] [(0, 0), (1, 1)] 2050 =
   (Some 4,
    [Sys (E_getaddrinfo ''host'' 22),
     Sys (E_socket 2 1 6 3), Sys (E_fcntl_setfl 3 2048), Sys (E_connect 3 1),
     Sys (E_poll 3 1 5000), Sys (E_close 3),
     Sys (E_socket 2 1 6 4), Sys (E_fcntl_setfl 4 2048), Sys (E_connect 4 1),
     Sys (E_poll 4 1 5000), Sys E_freeaddrinfo, Sys (E_fcntl_getfl 4),
     Sys (E_fcntl_setfl 4 2)])"
  by (simp add: get_socket_def hdr_defs cint_defs)

text \<open>
  C4. The claim: when the socket is connected and the allocation of the engine fails,
  \<^verbatim>\<open>open\<close> returns the error \<open>INIT\<close>. Line 132 tests \<^verbatim>\<open>session\<close>, the block of line 119,
  instead of \<^verbatim>\<open>session->lsession\<close>. In the run below \<^verbatim>\<open>libssh2_session_init\<close> returns
  \<^verbatim>\<open>NULL\<close>: the source goes on to configure and to handshake with the \<^verbatim>\<open>NULL\<close> handle,
  and what it returns is decided by the handshake, here \<open>HANDSHAKE\<close> after the teardown
  through \<^verbatim>\<open>simplessh_close_session\<close>.
\<close>

theorem C4_engine_allocation_failure_not_reported:
  "simplessh_open_session ''host'' 22 5
     \<lparr>gai_rc = 0, gai_res = [\<lparr>ai_family = 2, ai_socktype = 1, ai_protocol = 6, ai_addr = 1\<rparr>],
      socket_answers = [(3, 0)], poll_answers = [(1, 1)], getfl_answer = 2050,
      session_init_answer = None, handshake_answers = [- 39]\<rparr> =
   (Some \<lparr>side = LEFT, u = U_error HANDSHAKE\<rparr>,
    [Ssh (E_libssh2_init 0), Mem (E_malloc Blk_session), Mem (E_malloc Blk_either),
     Sys (E_getaddrinfo ''host'' 22), Sys (E_socket 2 1 6 3), Sys (E_fcntl_setfl 3 2048),
     Sys (E_connect 3 1), Sys (E_poll 3 1 5000), Sys E_freeaddrinfo, Sys (E_fcntl_getfl 3),
     Sys (E_fcntl_setfl 3 2), Ssh E_session_init,
     Ssh (E_session_set_blocking None 0), Ssh (E_session_set_timeout None 5000),
     Ssh (E_session_handshake None 3 (- 39)),
     Ssh (E_session_disconnect None ''simplessh_close_session''),
     Ssh (E_session_free None), Sys (E_close 3), Mem (E_free Blk_session),
     Ssh E_libssh2_exit])"
  by (simp add: simplessh_open_session_def get_socket_def returnError_def
      simplessh_close_session_def hdr_defs cint_defs)

text \<open>No answers of the outside world make \<^verbatim>\<open>simplessh_open_session\<close> return \<open>INIT\<close>.\<close>

lemma open_session_never_INIT:
  "fst (simplessh_open_session hostname port timeout w) \<noteq> Some \<lparr>side = LEFT, u = U_error INIT\<rparr>"
  by (auto simp: simplessh_open_session_def returnError_def Let_def
      split: prod.splits option.splits if_splits)

section \<open>File uploader: the transfer counter\<close>

lemma wrap32_id: "- (2 ^ 31) \<le> x \<Longrightarrow> x < 2 ^ 31 \<Longrightarrow> wrap32 x = x"
  by (simp add: wrap32_def)

lemma size_t_of_id: "0 \<le> x \<Longrightarrow> x < 2 ^ 64 \<Longrightarrow> size_t_of x = x"
  by (simp add: size_t_of_def)

lemma chunk_size_eq:
  assumes "0 \<le> t" "t < data_len" "data_len < 2 ^ 31"
  shows "chunk_size data_len t = min (data_len - t) 16384"
proof -
  have "int_sub data_len t = data_len - t"
    using assms by (simp add: int_sub_def wrap32_id)
  moreover have "int_mul 16 1024 = 16384"
    by (simp add: int_mul_def wrap32_def)
  moreover have "size_t_of (min (data_len - t) 16384) = min (data_len - t) 16384"
    using assms by (intro size_t_of_id) auto
  moreover have "min_c (data_len - t) 16384 = min (data_len - t) 16384"
    by (simp add: min_c_def min_def)
  ultimately show ?thesis
    by (simp add: chunk_size_def)
qed

lemma writes_Nil [simp]: "writes [] = []"
  by (simp add: writes_def)

lemma writes_Cons: "writes (ev # tr) = write_of ev @ writes tr"
  by (simp add: writes_def)

lemma writes_append: "writes (tr @ tr') = writes tr @ writes tr'"
  by (simp add: writes_def)

lemma accepted_bytes_write:
  "accepted_bytes (Chan (E_channel_write c off n rc) # tr) =
     (if rc < 0 then 0 else rc) + accepted_bytes tr"
  by (simp add: accepted_bytes_def writes_def)

lemma write_loop_inv:
  assumes "write_loop c data_len n t answers = (r, t', tr)"
    and "0 \<le> t" "0 < n" "n \<le> 16384" "t + n \<le> data_len" "data_len < 2 ^ 31"
    and "\<forall>x \<in> set (writes tr). write_within_request x"
  shows "t' = t + accepted_bytes tr \<and> t' \<le> data_len \<and> r \<noteq> Send_stalled
       \<and> (r = Send_complete \<longrightarrow> t' = data_len)
       \<and> (\<forall>x \<in> set (writes tr). write_within_chunk data_len x)
       \<and> ((r = Send_write_error) = (\<exists>x \<in> set (writes tr). write_hard_error x))"
  using assms
proof (induction answers arbitrary: n t r t' tr)
  case Nil
  then show ?case by (simp add: accepted_bytes_def writes_def)
next
  case (Cons rc answers)
  let ?ev = "Chan (E_channel_write c t n rc)"
  show ?case
  proof (cases "rc = LIBSSH2_ERROR_EAGAIN")
    case True
    obtain r0 t0 tr0 where rec: "write_loop c data_len n t answers = (r0, t0, tr0)"
      by (cases "write_loop c data_len n t answers") auto
    with Cons.prems(1) True have eqs: "r = r0" "t' = t0" "tr = ?ev # tr0"
      by auto
    have contract: "\<forall>x \<in> set (writes tr0). write_within_request x"
      using Cons.prems(7) eqs by (simp add: writes_Cons)
    have IH: "t0 = t + accepted_bytes tr0 \<and> t0 \<le> data_len \<and> r0 \<noteq> Send_stalled
       \<and> (r0 = Send_complete \<longrightarrow> t0 = data_len)
       \<and> (\<forall>x \<in> set (writes tr0). write_within_chunk data_len x)
       \<and> ((r0 = Send_write_error) = (\<exists>x \<in> set (writes tr0). write_hard_error x))"
      by (rule Cons.IH [OF rec Cons.prems(2-6) contract])
    show ?thesis
      using IH True Cons.prems(2-6) unfolding eqs
      by (auto simp: accepted_bytes_write writes_Cons LIBSSH2_ERROR_EAGAIN_def)
  next
    case notagain: False
    show ?thesis
    proof (cases "rc < 0")
      case True
      with Cons.prems(1) notagain have eqs: "r = Send_write_error" "t' = t" "tr = [?ev]"
        by auto
      show ?thesis
        using True notagain Cons.prems(2-6) unfolding eqs
        by (simp add: accepted_bytes_write writes_Cons accepted_bytes_def writes_def)
    next
      case False
      have rc_le: "rc \<le> n"
        using Cons.prems(1,7) notagain False
        by (auto simp: writes_Cons Let_def split: prod.splits if_splits)
      have n': "size_t_of (n - rc) = n - rc"
        using rc_le Cons.prems(4) False by (intro size_t_of_id) auto
      have tn: "int_add t rc = t + rc"
        using rc_le Cons.prems(2-6) False by (simp add: int_add_def wrap32_id)
      show ?thesis
      proof (cases "n - rc > 0")
        case True
        obtain r0 t0 tr0 where rec: "write_loop c data_len (n - rc) (t + rc) answers = (r0, t0, tr0)"
          by (cases "write_loop c data_len (n - rc) (t + rc) answers") auto
        with Cons.prems(1) notagain False True n' tn have eqs: "r = r0" "t' = t0" "tr = ?ev # tr0"
          by (auto simp: Let_def)
        have contract: "\<forall>x \<in> set (writes tr0). write_within_request x"
          using Cons.prems(7) eqs by (simp add: writes_Cons)
        have IH: "t0 = (t + rc) + accepted_bytes tr0 \<and> t0 \<le> data_len \<and> r0 \<noteq> Send_stalled
         \<and> (r0 = Send_complete \<longrightarrow> t0 = data_len)
         \<and> (\<forall>x \<in> set (writes tr0). write_within_chunk data_len x)
         \<and> ((r0 = Send_write_error) = (\<exists>x \<in> set (writes tr0). write_hard_error x))"
          using Cons.prems(2-6) False True rc_le
          by (intro Cons.IH [OF rec _ _ _ _ _ contract]) auto
        show ?thesis
          using IH False notagain Cons.prems(2-6) unfolding eqs
          by (auto simp: accepted_bytes_write writes_Cons)
      next
        case nzero: False
        then have rcn: "rc = n" using rc_le by simp
        show ?thesis
        proof (cases "t + rc < data_len")
          case True
          have cs: "chunk_size data_len (t + rc) = min (data_len - (t + rc)) 16384"
            using True Cons.prems(2-6) False by (intro chunk_size_eq) auto
          then have cspos: "chunk_size data_len (t + rc) > 0"
            using True by simp
          obtain r0 t0 tr0 where rec:
            "write_loop c data_len (chunk_size data_len (t + rc)) (t + rc) answers = (r0, t0, tr0)"
            by (cases "write_loop c data_len (chunk_size data_len (t + rc)) (t + rc) answers") auto
          with Cons.prems(1) notagain False nzero n' tn True cspos
          have eqs: "r = r0" "t' = t0" "tr = ?ev # tr0"
            by (auto simp: Let_def)
          have contract: "\<forall>x \<in> set (writes tr0). write_within_request x"
            using Cons.prems(7) eqs by (simp add: writes_Cons)
          have IH: "t0 = (t + rc) + accepted_bytes tr0 \<and> t0 \<le> data_len \<and> r0 \<noteq> Send_stalled
           \<and> (r0 = Send_complete \<longrightarrow> t0 = data_len)
           \<and> (\<forall>x \<in> set (writes tr0). write_within_chunk data_len x)
           \<and> ((r0 = Send_write_error) = (\<exists>x \<in> set (writes tr0). write_hard_error x))"
            using Cons.prems(2-6) False True cs cspos
            by (intro Cons.IH [OF rec _ _ _ _ _ contract]) auto
          show ?thesis
            using IH False notagain Cons.prems(2-6) unfolding eqs
            by (auto simp: accepted_bytes_write writes_Cons)
        next
          case fin: False
          with Cons.prems(1) notagain \<open>\<not> rc < 0\<close> nzero n' tn
          have eqs: "r = Send_complete" "t' = t + rc" "tr = [?ev]"
            by (auto simp: Let_def)
          show ?thesis
            using fin rcn \<open>\<not> rc < 0\<close> notagain Cons.prems(2-6) unfolding eqs
            by (simp add: accepted_bytes_write writes_Cons accepted_bytes_def writes_def)
        qed
      qed
    qed
  qed
qed


lemma write_loop_error_iff:
  "write_loop c data_len n t answers = (r, t', tr) \<Longrightarrow>
     (r = Send_write_error) = (\<exists>x \<in> set (writes tr). write_hard_error x)"
proof (induction answers arbitrary: n t r t' tr)
  case Nil
  then show ?case by (simp add: writes_def)
next
  case (Cons rc answers)
  then show ?case
    by (auto simp: writes_Cons Let_def LIBSSH2_ERROR_EAGAIN_def
        split: if_split_asm prod.split_asm)
qed

lemma transfer_error_iff:
  assumes "transfer c data_len answers = (r, t', tr)"
  shows "(r = Send_write_error) = (\<exists>x \<in> set (writes tr). write_hard_error x)"
proof (cases "0 < data_len \<and> chunk_size data_len 0 > 0")
  case True
  then have "write_loop c data_len (chunk_size data_len 0) 0 answers = (r, t', tr)"
    using assms by (simp add: transfer_def)
  then show ?thesis by (rule write_loop_error_iff)
next
  case False
  then show ?thesis
    using assms by (auto simp: transfer_def split: if_splits)
qed

lemma transfer_inv:
  assumes "transfer c data_len answers = (r, t', tr)"
    and "0 \<le> data_len" "data_len < 2 ^ 31"
    and "\<forall>x \<in> set (writes tr). write_within_request x"
  shows "t' = accepted_bytes tr \<and> t' \<le> data_len \<and> r \<noteq> Send_stalled
       \<and> (r = Send_complete \<longrightarrow> t' = data_len)
       \<and> (\<forall>x \<in> set (writes tr). write_within_chunk data_len x)"
proof (cases "0 < data_len")
  case True
  have cs: "chunk_size data_len 0 = min (data_len - 0) 16384"
    using True assms(3) by (intro chunk_size_eq) auto
  then have pos: "0 < chunk_size data_len 0"
    using True by simp
  have run: "write_loop c data_len (chunk_size data_len 0) 0 answers = (r, t', tr)"
    using assms(1) True pos by (simp add: transfer_def)
  have "t' = 0 + accepted_bytes tr \<and> t' \<le> data_len \<and> r \<noteq> Send_stalled
       \<and> (r = Send_complete \<longrightarrow> t' = data_len)
       \<and> (\<forall>x \<in> set (writes tr). write_within_chunk data_len x)
       \<and> ((r = Send_write_error) = (\<exists>x \<in> set (writes tr). write_hard_error x))"
    using True cs pos assms(3)
    by (intro write_loop_inv [OF run _ _ _ _ _ assms(4)]) auto
  then show ?thesis by auto
next
  case False
  with assms(1,2) show ?thesis
    by (auto simp: transfer_def accepted_bytes_def writes_def)
qed

lemma writes_waitsocket: "writes (waitsocket fd s dir) = []"
  by (simp add: waitsocket_def writes_def)

lemma writes_channel_open_loop:
  "\<forall>c. write_of (call c) = [] \<Longrightarrow> channel_open_loop call session answers = (r, tr) \<Longrightarrow> writes tr = []"
proof (induction answers arbitrary: r tr)
  case Nil
  then show ?case by (simp add: writes_def)
next
  case (Cons a answers)
  obtain ch e d where a: "a = (ch, e, d)" by (cases a) auto
  show ?case
    using Cons.prems Cons.IH unfolding a
    by (auto simp: writes_Cons writes_append writes_waitsocket Let_def
        split: option.splits if_splits prod.splits)
qed

lemma writes_spin_while_eagain:
  "\<forall>rc. write_of (call rc) = [] \<Longrightarrow> spin_while_eagain call answers = (r, tr) \<Longrightarrow> writes tr = []"
proof (induction answers arbitrary: r tr)
  case Nil
  then show ?case by (simp add: writes_def)
next
  case (Cons a answers)
  then show ?case
    by (auto simp: writes_Cons split: if_splits prod.splits)
qed

lemma send_file_cases:
  assumes "simplessh_send_file session mode data_len path w = (res, t, tr)"
  obtains (open_pending) "res = None" "t = 0" "writes tr = []"
  | (open_failed) "res = Some \<lparr>side = LEFT, u = U_error CHANNEL_OPEN\<rparr>" "t = 0" "writes tr = []"
  | (transferring) c r tr2 where
      "transfer c data_len (write_answers w) = (r, t, tr2)" "writes tr = writes tr2"
      "r = Send_pending \<or> r = Send_stalled" "res = None"
  | (write_failed) c tr2 where
      "transfer c data_len (write_answers w) = (Send_write_error, t, tr2)" "writes tr = writes tr2"
      "res = Some \<lparr>side = LEFT, u = U_error WRITE\<rparr>"
  | (finishing) c tr2 where
      "transfer c data_len (write_answers w) = (Send_complete, t, tr2)" "writes tr = writes tr2"
      "res = None \<or> res = Some \<lparr>side = RIGHT, u = U_value t\<rparr>"
proof -
  let ?call = "\<lambda>c. Chan (E_scp_send (lsession session) path (mode AND 511) data_len c)"
  obtain r1 tr1 where o: "channel_open_loop ?call session (scp_send_answers w) = (r1, tr1)"
    by (cases "channel_open_loop ?call session (scp_send_answers w)") auto
  have w1: "writes tr1 = []"
    by (rule writes_channel_open_loop [OF _ o]) simp
  show ?thesis
  proof (cases r1)
    case Pending
    with assms o w1 show ?thesis
      by (intro open_pending) (auto simp: simplessh_send_file_def writes_Cons writes_append)
  next
    case Hard_error
    with assms o w1 show ?thesis
      by (intro open_failed)
         (auto simp: simplessh_send_file_def returnLocalErrorS_def writes_Cons writes_append)
  next
    case (Completed c)
    obtain r t2 tr2 where tf: "transfer c data_len (write_answers w) = (r, t2, tr2)"
      by (cases "transfer c data_len (write_answers w)") auto
    obtain r3 tr3 where s3: "spin_while_eagain (\<lambda>rc. Chan (E_channel_send_eof c rc)) (send_eof_answers w) = (r3, tr3)"
      by (cases "spin_while_eagain (\<lambda>rc. Chan (E_channel_send_eof c rc)) (send_eof_answers w)") auto
    obtain r4 tr4 where s4: "spin_while_eagain (\<lambda>rc. Chan (E_channel_close c rc)) (close_answers w) = (r4, tr4)"
      by (cases "spin_while_eagain (\<lambda>rc. Chan (E_channel_close c rc)) (close_answers w)") auto
    obtain r5 tr5 where s5: "spin_while_eagain (\<lambda>rc. Chan (E_channel_free c)) (free_answers w) = (r5, tr5)"
      by (cases "spin_while_eagain (\<lambda>rc. Chan (E_channel_free c)) (free_answers w)") auto
    have w3: "writes tr3 = []" by (rule writes_spin_while_eagain [OF _ s3]) simp
    have w4: "writes tr4 = []" by (rule writes_spin_while_eagain [OF _ s4]) simp
    have w5: "writes tr5 = []" by (rule writes_spin_while_eagain [OF _ s5]) simp
    show ?thesis
    proof (cases r)
      case Send_pending
      with assms o Completed tf w1 show ?thesis
        by (intro transferring [of c r tr2])
           (auto simp: simplessh_send_file_def writes_Cons writes_append)
    next
      case Send_stalled
      with assms o Completed tf w1 show ?thesis
        by (intro transferring [of c r tr2])
           (auto simp: simplessh_send_file_def writes_Cons writes_append)
    next
      case Send_write_error
      with assms o Completed tf w1 show ?thesis
        by (intro write_failed [of c tr2])
           (auto simp: simplessh_send_file_def returnLocalErrorS_def writes_Cons writes_append)
    next
      case Send_complete
      with assms o Completed tf w1 s3 s4 s5 w3 w4 w5 show ?thesis
        by (intro finishing [of c tr2]; cases r3; cases r4; cases r5)
           (auto simp: simplessh_send_file_def writes_Cons writes_append Let_def)
    qed
  qed
qed

text \<open>
  C3, as stated: when a chunk write returns a hard error, the value returned is the error
  side tagged \<open>WRITE\<close> and it still carries the bytes transferred so far. In the run
  below the first write accepts 4 of 10 bytes and the second returns the hard error -7.
  The cell \<^verbatim>\<open>*transferred\<close> holds 4, but line 333 stores \<^verbatim>\<open>u.error\<close> over the pointer to
  it: the either value returned holds the error kind and no count.
\<close>

theorem C3_returned_either_holds_no_count:
  "simplessh_send_file \<lparr>sock = 3, lsession = Some 7\<rparr> 420 10 ''/tmp/f''
     \<lparr>scp_send_answers = [(Some 9, 0, 0)], write_answers = [4, - 7],
      send_eof_answers = [], close_answers = [], free_answers = []\<rparr> =
   (Some \<lparr>side = LEFT, u = U_error WRITE\<rparr>, 4,
    [Mem (E_malloc Blk_transferred), Mem (E_malloc Blk_either),
     Chan (E_scp_send (Some 7) ''/tmp/f'' 420 10 (Some 9)),
     Chan (E_channel_write 9 0 10 4), Chan (E_channel_write 9 4 6 (- 7)),
     Chan (E_channel_free 9)])
   \<and> map_option u (fst (simplessh_send_file \<lparr>sock = 3, lsession = Some 7\<rparr> 420 10 ''/tmp/f''
        \<lparr>scp_send_answers = [(Some 9, 0, 0)], write_answers = [4, - 7],
         send_eof_answers = [], close_answers = [], free_answers = []\<rparr>)) \<noteq> Some (U_value 4)"
  by (simp add: simplessh_send_file_def transfer_def chunk_size_def returnLocalErrorS_def
      hdr_defs cint_defs)

text \<open>
  C3, amended: in every call of \<^verbatim>\<open>simplessh_send_file\<close> in which a write returns a hard
  error (a negative code other than would-block), the value returned is the error side
  tagged \<open>WRITE\<close>, holding the error kind only; and if the length is a C \<^verbatim>\<open>int\<close> and the
  engine never accepts more than it was offered, the cell \<^verbatim>\<open>*transferred\<close> then holds the
  sum of the byte counts accepted by the writes before.
\<close>

theorem C3_write_error_count_stays_in_cell:
  assumes "simplessh_send_file session mode data_len path w = (res, t, tr)"
    and "\<exists>x \<in> set (writes tr). write_hard_error x"
  shows "res = Some \<lparr>side = LEFT, u = U_error WRITE\<rparr>
       \<and> (data_len < 2 ^ 31 \<and> (\<forall>x \<in> set (writes tr). write_within_request x) \<longrightarrow> t = accepted_bytes tr)"
  using assms(1)
proof (cases rule: send_file_cases)
  case open_pending
  with assms(2) show ?thesis by simp
next
  case open_failed
  with assms(2) show ?thesis by simp
next
  case (transferring c r tr2)
  with assms(2) transfer_error_iff [OF transferring(1)] show ?thesis by auto
next
  case (write_failed c tr2)
  have pos: "0 \<le> data_len"
    using write_failed(1) by (auto simp: transfer_def split: if_splits)
  show ?thesis
    using transfer_inv [OF write_failed(1) pos] write_failed(2,3)
    by (auto simp: accepted_bytes_def)
next
  case (finishing c tr2)
  with assms(2) transfer_error_iff [OF finishing(1)] show ?thesis by auto
qed

theorem C3_write_error_witness:
  "(\<exists>x \<in> set (writes [Mem (E_malloc Blk_transferred), Mem (E_malloc Blk_either),
        Chan (E_scp_send (Some 7) ''/tmp/f'' 420 10 (Some 9)),
        Chan (E_channel_write 9 0 10 4), Chan (E_channel_write 9 4 6 (- 7)),
        Chan (E_channel_free 9)]). write_hard_error x)
   \<and> accepted_bytes [Mem (E_malloc Blk_transferred), Mem (E_malloc Blk_either),
        Chan (E_scp_send (Some 7) ''/tmp/f'' 420 10 (Some 9)),
        Chan (E_channel_write 9 0 10 4), Chan (E_channel_write 9 4 6 (- 7)),
        Chan (E_channel_free 9)] = 4"
proof -
  let ?tr = "[Mem (E_malloc Blk_transferred), Mem (E_malloc Blk_either),
        Chan (E_scp_send (Some 7) ''/tmp/f'' 420 10 (Some 9)),
        Chan (E_channel_write 9 0 10 4), Chan (E_channel_write 9 4 6 (- 7)),
        Chan (E_channel_free 9)]"
  have run: "simplessh_send_file \<lparr>sock = 3, lsession = Some 7\<rparr> 420 10 ''/tmp/f''
     \<lparr>scp_send_answers = [(Some 9, 0, 0)], write_answers = [4, - 7],
      send_eof_answers = [], close_answers = [], free_answers = []\<rparr> =
     (Some \<lparr>side = LEFT, u = U_error WRITE\<rparr>, 4, ?tr)"
    by (simp add: simplessh_send_file_def transfer_def chunk_size_def returnLocalErrorS_def
        hdr_defs cint_defs)
  have hard: "\<exists>x \<in> set (writes ?tr). write_hard_error x"
    by (simp add: writes_def hdr_defs)
  have contract: "\<forall>x \<in> set (writes ?tr). write_within_request x"
    by (simp add: writes_def)
  from C3_write_error_count_stays_in_cell [OF run hard] contract hard
  show ?thesis by simp
qed

text \<open>
  C10: in \<^verbatim>\<open>simplessh_send_file\<close>, for a length that is a C \<^verbatim>\<open>int\<close> and not negative and
  an engine that never accepts more than it was offered, the counter \<^verbatim>\<open>*transferred\<close>
  never exceeds \<open>data_len\<close>, whether the call has returned or is still in its loops; it is
  the sum of the byte counts the engine accepted; each write offers at most
  \<open>min (data_len - transferred) 16384\<close> bytes; and on the success return the value
  reported is \<open>data_len\<close>.
\<close>

theorem C10_transferred_bounded_and_exact:
  assumes "simplessh_send_file session mode data_len path w = (res, t, tr)"
    and "0 \<le> data_len" "data_len < 2 ^ 31"
    and "\<forall>x \<in> set (writes tr). write_within_request x"
  shows "t \<le> data_len \<and> t = accepted_bytes tr
       \<and> (\<forall>x \<in> set (writes tr). write_within_chunk data_len x)
       \<and> (\<forall>e. res = Some e \<and> side e = RIGHT \<longrightarrow> u e = U_value data_len \<and> t = data_len)"
  using assms(1)
proof (cases rule: send_file_cases)
  case open_pending
  with assms(2) show ?thesis by (simp add: accepted_bytes_def)
next
  case open_failed
  with assms(2) show ?thesis by (simp add: accepted_bytes_def)
next
  case (transferring c r tr2)
  have "\<forall>x \<in> set (writes tr2). write_within_request x"
    using assms(4) transferring(2) by simp
  from transfer_inv [OF transferring(1) assms(2,3) this] transferring(2,4)
  show ?thesis by (auto simp: accepted_bytes_def)
next
  case (write_failed c tr2)
  have "\<forall>x \<in> set (writes tr2). write_within_request x"
    using assms(4) write_failed(2) by simp
  from transfer_inv [OF write_failed(1) assms(2,3) this] write_failed(2,3)
  show ?thesis by (auto simp: accepted_bytes_def)
next
  case (finishing c tr2)
  have "\<forall>x \<in> set (writes tr2). write_within_request x"
    using assms(4) finishing(2) by simp
  from transfer_inv [OF finishing(1) assms(2,3) this] finishing(2,3)
  show ?thesis by (auto simp: accepted_bytes_def)
qed

theorem C10_witness:
  "accepted_bytes [Mem (E_malloc Blk_transferred), Mem (E_malloc Blk_either),
        Chan (E_scp_send (Some 7) ''/tmp/f'' 420 10 None),
        Ssh (E_session_last_errno (Some 7) (- 37)),
        Ssh (E_block_directions (Some 7) 2), Sys (E_select 4 False True 10),
        Chan (E_scp_send (Some 7) ''/tmp/f'' 420 10 (Some 9)),
        Chan (E_channel_write 9 0 10 4), Chan (E_channel_write 9 4 6 (- 37)),
        Chan (E_channel_write 9 4 6 6), Chan (E_channel_send_eof 9 (- 37)),
        Chan (E_channel_send_eof 9 0), Chan (E_channel_close 9 0),
        Chan (E_channel_free 9)] = 10"
proof -
  let ?tr = "[Mem (E_malloc Blk_transferred), Mem (E_malloc Blk_either),
        Chan (E_scp_send (Some 7) ''/tmp/f'' 420 10 None),
        Ssh (E_session_last_errno (Some 7) (- 37)),
        Ssh (E_block_directions (Some 7) 2), Sys (E_select 4 False True 10),
        Chan (E_scp_send (Some 7) ''/tmp/f'' 420 10 (Some 9)),
        Chan (E_channel_write 9 0 10 4), Chan (E_channel_write 9 4 6 (- 37)),
        Chan (E_channel_write 9 4 6 6), Chan (E_channel_send_eof 9 (- 37)),
        Chan (E_channel_send_eof 9 0), Chan (E_channel_close 9 0),
        Chan (E_channel_free 9)]"
  have run: "simplessh_send_file \<lparr>sock = 3, lsession = Some 7\<rparr> 420 10 ''/tmp/f''
     \<lparr>scp_send_answers = [(None, - 37, 2), (Some 9, 0, 0)], write_answers = [4, - 37, 6],
      send_eof_answers = [- 37, 0], close_answers = [0], free_answers = [0]\<rparr> =
     (Some \<lparr>side = RIGHT, u = U_value 10\<rparr>, 10, ?tr)"
    by (simp add: simplessh_send_file_def transfer_def chunk_size_def waitsocket_def
        hdr_defs cint_defs)
  have contract: "\<forall>x \<in> set (writes ?tr). write_within_request x"
    by (simp add: writes_def)
  from C10_transferred_bounded_and_exact [OF run _ _ contract]
  show ?thesis by simp
qed

section \<open>Command executor: the shape of the drain loop\<close>

lemma drain_ios_Nil [simp]: "drain_ios [] = []"
  by (simp add: drain_ios_def)

lemma drain_ios_Cons [simp]: "drain_ios (ev # tr) = drain_io_of ev @ drain_ios tr"
  by (simp add: drain_ios_def)

lemma drain_ios_append [simp]: "drain_ios (tr @ tr') = drain_ios tr @ drain_ios tr'"
  by (simp add: drain_ios_def)

lemma drain_ios_waitsocket [simp]: "drain_ios (waitsocket fd s dir) = [Io_wait]"
  by (simp add: waitsocket_def)

lemma drain_ios_drain_reads [simp]:
  "drain_ios (drain_reads c st rc rc2) =
     [Io_read_out (int_sub (int_sub (out_size st) (out_position st)) 1) rc,
      Io_read_err (int_sub (int_sub (err_size st) (err_position st)) 1) rc2]"
  by (simp add: drain_reads_def)

lemma drain_ios_advance_out [simp]: "drain_ios (snd (advance_out st rc)) = []"
  by (simp add: advance_out_def Let_def)

lemma drain_ios_advance_err [simp]: "drain_ios (snd (advance_err st rc)) = []"
  by (simp add: advance_err_def Let_def)

lemma drain_branch_of_cases:
  obtains (break) "drain_branch_of rc rc2 = Drain_break" "rc = 0" "rc2 = 0"
  | (wait) "drain_branch_of rc rc2 = Drain_wait"
      "rc = LIBSSH2_ERROR_EAGAIN" "rc2 = LIBSSH2_ERROR_EAGAIN"
  | (read_error) "drain_branch_of rc rc2 = Drain_read_error"
      "(rc < 0 \<and> rc \<noteq> LIBSSH2_ERROR_EAGAIN) \<or> (rc2 < 0 \<and> rc2 \<noteq> LIBSSH2_ERROR_EAGAIN)"
      "\<not> (rc = 0 \<and> rc2 = 0)" "\<not> (rc = LIBSSH2_ERROR_EAGAIN \<and> rc2 = LIBSSH2_ERROR_EAGAIN)"
  | (advance) "drain_branch_of rc rc2 = Drain_advance"
      "\<not> (rc = 0 \<and> rc2 = 0)" "\<not> (rc = LIBSSH2_ERROR_EAGAIN \<and> rc2 = LIBSSH2_ERROR_EAGAIN)"
      "\<not> (rc < 0 \<and> rc \<noteq> LIBSSH2_ERROR_EAGAIN)" "\<not> (rc2 < 0 \<and> rc2 \<noteq> LIBSSH2_ERROR_EAGAIN)"
proof (cases "rc = 0 \<and> rc2 = 0")
  case True
  then show ?thesis by (intro break) (simp_all add: drain_branch_of_def)
next
  case nz: False
  show ?thesis
  proof (cases "rc = LIBSSH2_ERROR_EAGAIN \<and> rc2 = LIBSSH2_ERROR_EAGAIN")
    case True
    with nz show ?thesis by (intro wait) (simp_all add: drain_branch_of_def)
  next
    case nw: False
    show ?thesis
    proof (cases "(rc < 0 \<and> rc \<noteq> LIBSSH2_ERROR_EAGAIN) \<or> (rc2 < 0 \<and> rc2 \<noteq> LIBSSH2_ERROR_EAGAIN)")
      case True
      have "drain_branch_of rc rc2 = Drain_read_error"
        using nz nw True unfolding drain_branch_of_def by (simp only: if_False if_True)
      with nz nw True show ?thesis by (intro read_error)
    next
      case False
      have "drain_branch_of rc rc2 = Drain_advance"
        using nz nw False unfolding drain_branch_of_def by (simp only: if_False if_True)
      with nz nw False show ?thesis by (intro advance) blast+
    qed
  qed
qed

lemma drain_loop_Cons_cases:
  assumes "drain_loop session c st ((rc, rc2, dir) # answers) = (r, st', tr)"
  obtains (break) "rc = 0" "rc2 = 0" "r = Completed ()" "st' = st" "tr = drain_reads c st rc rc2"
  | (wait) tr' where "rc = LIBSSH2_ERROR_EAGAIN" "rc2 = LIBSSH2_ERROR_EAGAIN"
      "drain_loop session c st answers = (r, st', tr')"
      "tr = drain_reads c st rc rc2 @ waitsocket (sock session) (lsession session) dir @ tr'"
  | (read_error) "(rc < 0 \<and> rc \<noteq> LIBSSH2_ERROR_EAGAIN) \<or> (rc2 < 0 \<and> rc2 \<noteq> LIBSSH2_ERROR_EAGAIN)"
      "\<not> (rc = 0 \<and> rc2 = 0)" "\<not> (rc = LIBSSH2_ERROR_EAGAIN \<and> rc2 = LIBSSH2_ERROR_EAGAIN)"
      "r = Hard_error" "st' = st" "tr = drain_reads c st rc rc2"
  | (advance) tr' where
      "\<not> (rc = 0 \<and> rc2 = 0)" "\<not> (rc = LIBSSH2_ERROR_EAGAIN \<and> rc2 = LIBSSH2_ERROR_EAGAIN)"
      "\<not> (rc < 0 \<and> rc \<noteq> LIBSSH2_ERROR_EAGAIN)" "\<not> (rc2 < 0 \<and> rc2 \<noteq> LIBSSH2_ERROR_EAGAIN)"
      "drain_loop session c (fst (advance_err (fst (advance_out st rc)) rc2)) answers = (r, st', tr')"
      "tr = drain_reads c st rc rc2 @ snd (advance_out st rc)
            @ snd (advance_err (fst (advance_out st rc)) rc2) @ tr'"
proof (cases rc rc2 rule: drain_branch_of_cases)
  case break
  with assms show ?thesis by (intro that(1)) auto
next
  case wait
  obtain r0 st0 tr0 where rec: "drain_loop session c st answers = (r0, st0, tr0)"
    by (cases "drain_loop session c st answers") auto
  with assms wait(1) have "r = r0" "st' = st0"
    "tr = drain_reads c st rc rc2 @ waitsocket (sock session) (lsession session) dir @ tr0"
    by simp_all
  with rec wait(2,3) show ?thesis by (intro that(2) [of tr0]) simp_all
next
  case read_error
  with assms show ?thesis by (intro that(3)) auto
next
  case advance
  obtain st1 tr1 where a1: "advance_out st rc = (st1, tr1)"
    by (cases "advance_out st rc") auto
  obtain st2 tr2 where a2: "advance_err st1 rc2 = (st2, tr2)"
    by (cases "advance_err st1 rc2") auto
  obtain r0 st0 tr0 where rec: "drain_loop session c st2 answers = (r0, st0, tr0)"
    by (cases "drain_loop session c st2 answers") auto
  from assms advance(1) a1 a2 rec have "r = r0" "st' = st0"
    "tr = drain_reads c st rc rc2 @ tr1 @ tr2 @ tr0"
    by simp_all
  with rec a1 a2 advance(2-5) show ?thesis by (intro that(4) [of tr0]) simp_all
qed

lemma drain_calls_simps [simp]:
  "drain_calls [] = []"
  "drain_calls (ev # tr) = drain_call_of ev @ drain_calls tr"
  "drain_calls (tr @ tr') = drain_calls tr @ drain_calls tr'"
  by (simp_all add: drain_calls_def)

lemma drain_calls_waitsocket [simp]:
  "drain_calls (waitsocket fd s dir) =
     [Call_directions s dir,
      Call_select (int_add fd 1) (dir AND LIBSSH2_SESSION_BLOCK_INBOUND \<noteq> 0)
        (dir AND LIBSSH2_SESSION_BLOCK_OUTBOUND \<noteq> 0) 10]"
  by (simp add: waitsocket_def)

lemma drain_calls_drain_reads [simp]:
  "drain_calls (drain_reads c st rc rc2) = [Call_read_out rc, Call_read_err rc2]"
  by (simp add: drain_reads_def)

lemma drain_calls_advance [simp]:
  "drain_calls (snd (advance_out st rc)) = []"
  "drain_calls (snd (advance_err st rc)) = []"
  by (simp_all add: advance_out_def advance_err_def Let_def)

lemma drain_iterations_ok:
  assumes "drain_loop session channel st answers = (r, st', tr)"
  shows "iterations_ok (sock session) (lsession session) (drain_calls tr)"
  using assms
proof (induction answers arbitrary: st r st' tr)
  case Nil
  then show ?case by simp
next
  case (Cons a answers)
  obtain rc rc2 dir where a: "a = (rc, rc2, dir)" by (cases a) auto
  from Cons.prems [unfolded a] show ?case
  proof (cases rule: drain_loop_Cons_cases)
    case break
    then show ?thesis by simp
  next
    case (wait tr')
    have "iterations_ok (sock session) (lsession session) (drain_calls tr')"
      by (rule Cons.IH [OF wait(3)])
    then show ?thesis
      unfolding wait(4) using wait(1,2) by (simp add: LIBSSH2_ERROR_EAGAIN_def)
  next
    case read_error
    then show ?thesis by (simp add: LIBSSH2_ERROR_EAGAIN_def)
  next
    case (advance tr')
    have "iterations_ok (sock session) (lsession session) (drain_calls tr')"
      by (rule Cons.IH [OF advance(5)])
    then show ?thesis
      unfolding advance(6) using advance(1,2) by auto
  qed
qed

lemma drain_completed_ends_with_eof:
  assumes "drain_loop session channel st answers = (r, st', tr)" "r = Completed ()"
  shows "\<exists>pre. drain_calls tr = pre @ [Call_read_out 0, Call_read_err 0]"
  using assms
proof (induction answers arbitrary: st r st' tr)
  case Nil
  then show ?case by simp
next
  case (Cons a answers)
  obtain rc rc2 dir where a: "a = (rc, rc2, dir)" by (cases a) auto
  from Cons.prems(1) [unfolded a] show ?case
  proof (cases rule: drain_loop_Cons_cases)
    case break
    have "drain_calls tr = [] @ [Call_read_out 0, Call_read_err 0]"
      unfolding break(5) using break(1,2) by simp
    then show ?thesis by blast
  next
    case (wait tr')
    from Cons.IH [OF wait(3) Cons.prems(2)] obtain pre
      where "drain_calls tr' = pre @ [Call_read_out 0, Call_read_err 0]" by blast
    then have "drain_calls tr =
        (drain_calls (drain_reads channel st rc rc2)
         @ drain_calls (waitsocket (sock session) (lsession session) dir) @ pre)
        @ [Call_read_out 0, Call_read_err 0]"
      unfolding wait(4) by simp
    then show ?thesis by blast
  next
    case read_error
    with Cons.prems(2) show ?thesis by simp
  next
    case (advance tr')
    from Cons.IH [OF advance(5) Cons.prems(2)] obtain pre
      where "drain_calls tr' = pre @ [Call_read_out 0, Call_read_err 0]" by blast
    then have "drain_calls tr = (drain_calls (drain_reads channel st rc rc2) @ pre)
                 @ [Call_read_out 0, Call_read_err 0]"
      unfolding advance(6) by simp
    then show ?thesis by blast
  qed
qed

text \<open>
  C5: the trace of the drain loop is a sequence of iterations, each of which attempts one
  read of standard output and then one read of standard error; after an iteration in
  which both reads return would-block the loop waits on the readiness of the session's
  socket, in the directions the engine reports blocked and for at most ten seconds,
  before the next reads; and the loop ends normally only with an iteration in which both
  reads return zero.
\<close>

theorem C5_drain_iterations:
  assumes "drain_loop session channel st answers = (r, st', tr)"
  shows "iterations_ok (sock session) (lsession session) (drain_calls tr)
       \<and> (r = Completed () \<longrightarrow>
            (\<exists>pre. drain_calls tr = pre @ [Call_read_out 0, Call_read_err 0]))"
  using drain_iterations_ok [OF assms] drain_completed_ends_with_eof [OF assms] by blast

theorem C5_witness:
  "iterations_ok 3 (Some 7)
     [Call_read_out (- 37), Call_read_err (- 37),
      Call_directions (Some 7) 1, Call_select 4 True False 10,
      Call_read_out 5, Call_read_err (- 37), Call_read_out 0, Call_read_err 0]
   \<and> (\<exists>pre.
         [Call_read_out (- 37), Call_read_err (- 37),
          Call_directions (Some 7) 1, Call_select 4 True False 10,
          Call_read_out 5, Call_read_err (- 37), Call_read_out 0, Call_read_err 0]
         = pre @ [Call_read_out 0, Call_read_err 0])"
proof -
  let ?tr = "[Chan (E_channel_read 9 0 127 (- 37)), Chan (E_channel_read_stderr 9 0 127 (- 37)),
     Ssh (E_block_directions (Some 7) 1), Sys (E_select 4 True False 10),
     Chan (E_channel_read 9 0 127 5), Chan (E_channel_read_stderr 9 0 127 (- 37)),
     Mem (E_realloc Blk_out 256),
     Chan (E_channel_read 9 5 250 0), Chan (E_channel_read_stderr 9 0 127 0)]"
  have run: "drain_loop \<lparr>sock = 3, lsession = Some 7\<rparr> 9 drain_init
       [(- 37, - 37, 1), (5, - 37, 1), (0, 0, 0)] =
     (Completed (),
      \<lparr>out_size = 256, out_position = 5, err_size = 128, err_position = 0,
       out_block = 256, err_block = 128\<rparr>, ?tr)"
    by (simp add: drain_init_def drain_branch_of_def drain_reads_def advance_out_def
        advance_err_def waitsocket_def hdr_defs cint_defs)
  from C5_drain_iterations [OF run] show ?thesis by simp
qed

section \<open>Command executor: read errors\<close>


section \<open>Command executor: buffer growth\<close>

lemma advance_out_grow:
  assumes "0 \<le> out_position st" "0 < rc" "out_position st + rc < out_size st"
    and "out_size st < 2 ^ 30"
  shows "advance_out st rc =
     (if out_size st - (out_position st + rc) < 1024
      then (st\<lparr>out_position := out_position st + rc,
               out_size := min (2 * out_size st) (out_size st + 65536),
               out_block := min (2 * out_size st) (out_size st + 65536)\<rparr>,
            [Mem (E_realloc Blk_out (min (2 * out_size st) (out_size st + 65536)))])
      else (st\<lparr>out_position := out_position st + rc\<rparr>, []))"
proof -
  have p: "int_add (out_position st) rc = out_position st + rc"
    using assms by (simp add: int_add_def wrap32_def)
  have h: "int_sub (out_size st) (out_position st + rc) = out_size st - (out_position st + rc)"
    using assms by (simp add: int_sub_def wrap32_def)
  have m: "int_mul (out_size st) 2 = 2 * out_size st"
    using assms by (simp add: int_mul_def wrap32_def)
  have a: "int_add (out_size st) 65536 = out_size st + 65536"
    using assms by (simp add: int_add_def wrap32_def)
  have mc: "min_c (2 * out_size st) (out_size st + 65536) = min (2 * out_size st) (out_size st + 65536)"
    by (simp add: min_c_def min_def)
  have s: "size_t_of (min (2 * out_size st) (out_size st + 65536)) = min (2 * out_size st) (out_size st + 65536)"
    using assms by (simp add: size_t_of_def)
  show ?thesis
    using assms p h m a mc s by (simp add: advance_out_def Let_def)
qed

lemma advance_err_grow:
  assumes "0 \<le> err_position st" "0 < rc" "err_position st + rc < err_size st"
    and "err_size st < 2 ^ 30"
  shows "advance_err st rc =
     (if err_size st - (err_position st + rc) < 1024
      then (st\<lparr>err_position := err_position st + rc,
               err_size := min (2 * err_size st) (err_size st + 65536),
               err_block := min (2 * err_size st) (err_size st + 65536)\<rparr>,
            [Mem (E_realloc Blk_err (min (2 * err_size st) (err_size st + 65536)))])
      else (st\<lparr>err_position := err_position st + rc\<rparr>, []))"
proof -
  have p: "int_add (err_position st) rc = err_position st + rc"
    using assms by (simp add: int_add_def wrap32_def)
  have h: "int_sub (err_size st) (err_position st + rc) = err_size st - (err_position st + rc)"
    using assms by (simp add: int_sub_def wrap32_def)
  have m: "int_mul (err_size st) 2 = 2 * err_size st"
    using assms by (simp add: int_mul_def wrap32_def)
  have a: "int_add (err_size st) 65536 = err_size st + 65536"
    using assms by (simp add: int_add_def wrap32_def)
  have mc: "min_c (2 * err_size st) (err_size st + 65536) = min (2 * err_size st) (err_size st + 65536)"
    by (simp add: min_c_def min_def)
  have s: "size_t_of (min (2 * err_size st) (err_size st + 65536)) = min (2 * err_size st) (err_size st + 65536)"
    using assms by (simp add: size_t_of_def)
  show ?thesis
    using assms p h m a mc s by (simp add: advance_err_def Let_def)
qed

text \<open>
  Each output buffer starts at a capacity of 128 bytes. For a read that stays within the
  buffer and a capacity below \<open>2 ^ 30\<close>, where doubling stays within a C \<^verbatim>\<open>int\<close>, a headroom
  below 1024 bytes after the read makes the new capacity, passed to \<^verbatim>\<open>realloc\<close>, exactly
  \<open>min (2 * old) (old + 65536)\<close>.
\<close>

lemma buffer_growth_below_overflow:
  "out_size drain_init = 128 \<and> err_size drain_init = 128
   \<and> out_block drain_init = 128 \<and> err_block drain_init = 128
   \<and> (0 \<le> out_position st \<and> 0 < rc \<and> out_position st + rc < out_size st
        \<and> out_size st < 2 ^ 30 \<and> out_size st - (out_position st + rc) < 1024 \<longrightarrow>
          out_size (fst (advance_out st rc)) = min (2 * out_size st) (out_size st + 65536)
        \<and> out_block (fst (advance_out st rc)) = min (2 * out_size st) (out_size st + 65536)
        \<and> snd (advance_out st rc) =
            [Mem (E_realloc Blk_out (min (2 * out_size st) (out_size st + 65536)))])
   \<and> (0 \<le> err_position st2 \<and> 0 < rc2 \<and> err_position st2 + rc2 < err_size st2
        \<and> err_size st2 < 2 ^ 30 \<and> err_size st2 - (err_position st2 + rc2) < 1024 \<longrightarrow>
          err_size (fst (advance_err st2 rc2)) = min (2 * err_size st2) (err_size st2 + 65536)
        \<and> err_block (fst (advance_err st2 rc2)) = min (2 * err_size st2) (err_size st2 + 65536)
        \<and> snd (advance_err st2 rc2) =
            [Mem (E_realloc Blk_err (min (2 * err_size st2) (err_size st2 + 65536)))])"
proof -
  have init: "out_size drain_init = 128 \<and> err_size drain_init = 128
      \<and> out_block drain_init = 128 \<and> err_block drain_init = 128"
    by (simp add: drain_init_def size_t_of_def)
  have o: "out_size (fst (advance_out st rc)) = min (2 * out_size st) (out_size st + 65536)
        \<and> out_block (fst (advance_out st rc)) = min (2 * out_size st) (out_size st + 65536)
        \<and> snd (advance_out st rc) =
            [Mem (E_realloc Blk_out (min (2 * out_size st) (out_size st + 65536)))]"
    if "0 \<le> out_position st" "0 < rc" "out_position st + rc < out_size st"
       "out_size st < 2 ^ 30" "out_size st - (out_position st + rc) < 1024"
    using advance_out_grow [OF that(1-4)] that(5) by simp
  have e: "err_size (fst (advance_err st2 rc2)) = min (2 * err_size st2) (err_size st2 + 65536)
        \<and> err_block (fst (advance_err st2 rc2)) = min (2 * err_size st2) (err_size st2 + 65536)
        \<and> snd (advance_err st2 rc2) =
            [Mem (E_realloc Blk_err (min (2 * err_size st2) (err_size st2 + 65536)))]"
    if "0 \<le> err_position st2" "0 < rc2" "err_position st2 + rc2 < err_size st2"
       "err_size st2 < 2 ^ 30" "err_size st2 - (err_position st2 + rc2) < 1024"
    using advance_err_grow [OF that(1-4)] that(5) by simp
  from init o e show ?thesis by blast
qed

section \<open>Command executor: positions stay within the buffers\<close>

lemma advance_out_step:
  assumes "0 \<le> out_position st" "out_position st < out_size st" "out_size st < 2 ^ 31"
    and "rc \<le> out_size st - out_position st - 1"
    and "out_position st + max 0 rc \<le> 2 ^ 30 - 1024"
  shows "out_position (fst (advance_out st rc)) = out_position st + max 0 rc
       \<and> out_position (fst (advance_out st rc)) < out_size (fst (advance_out st rc))
       \<and> out_size (fst (advance_out st rc)) < 2 ^ 31
       \<and> out_size (fst (advance_out st rc)) =
           (if 0 < rc \<and> out_size st - (out_position st + rc) < 1024
            then min (2 * out_size st) (out_size st + 65536) else out_size st)
       \<and> out_block (fst (advance_out st rc)) =
           (if 0 < rc \<and> out_size st - (out_position st + rc) < 1024
            then min (2 * out_size st) (out_size st + 65536) else out_block st)
       \<and> err_size (fst (advance_out st rc)) = err_size st
       \<and> err_position (fst (advance_out st rc)) = err_position st
       \<and> err_block (fst (advance_out st rc)) = err_block st"
proof (cases "0 < rc")
  case False
  then show ?thesis using assms by (simp add: advance_out_def)
next
  case True
  have p: "int_add (out_position st) rc = out_position st + rc"
    using assms True by (simp add: int_add_def wrap32_def)
  have h: "int_sub (out_size st) (out_position st + rc) = out_size st - (out_position st + rc)"
    using assms True by (simp add: int_sub_def wrap32_def)
  show ?thesis
  proof (cases "out_size st - (out_position st + rc) < 1024")
    case False
    then show ?thesis using assms True p h by (simp add: advance_out_def Let_def)
  next
    case grow: True
    have small: "out_size st < 2 ^ 30" using grow assms True by simp
    have m: "int_mul (out_size st) 2 = 2 * out_size st"
      using small assms by (simp add: int_mul_def wrap32_def)
    have a: "int_add (out_size st) 65536 = out_size st + 65536"
      using small assms by (simp add: int_add_def wrap32_def)
    have mc: "min_c (2 * out_size st) (out_size st + 65536) = min (2 * out_size st) (out_size st + 65536)"
      by (simp add: min_c_def min_def)
    have s: "size_t_of (min (2 * out_size st) (out_size st + 65536)) = min (2 * out_size st) (out_size st + 65536)"
      using small assms by (simp add: size_t_of_def)
    show ?thesis
      using assms True grow small p h m a mc s by (simp add: advance_out_def Let_def)
  qed
qed


lemma advance_err_step:
  assumes "0 \<le> err_position st" "err_position st < err_size st" "err_size st < 2 ^ 31"
    and "rc \<le> err_size st - err_position st - 1"
    and "err_position st + max 0 rc \<le> 2 ^ 30 - 1024"
  shows "err_position (fst (advance_err st rc)) = err_position st + max 0 rc
       \<and> err_position (fst (advance_err st rc)) < err_size (fst (advance_err st rc))
       \<and> err_size (fst (advance_err st rc)) < 2 ^ 31
       \<and> err_size (fst (advance_err st rc)) =
           (if 0 < rc \<and> err_size st - (err_position st + rc) < 1024
            then min (2 * err_size st) (err_size st + 65536) else err_size st)
       \<and> err_block (fst (advance_err st rc)) =
           (if 0 < rc \<and> err_size st - (err_position st + rc) < 1024
            then min (2 * err_size st) (err_size st + 65536) else err_block st)
       \<and> out_size (fst (advance_err st rc)) = out_size st
       \<and> out_position (fst (advance_err st rc)) = out_position st
       \<and> out_block (fst (advance_err st rc)) = out_block st"
proof (cases "0 < rc")
  case False
  then show ?thesis using assms by (simp add: advance_err_def)
next
  case True
  have p: "int_add (err_position st) rc = err_position st + rc"
    using assms True by (simp add: int_add_def wrap32_def)
  have h: "int_sub (err_size st) (err_position st + rc) = err_size st - (err_position st + rc)"
    using assms True by (simp add: int_sub_def wrap32_def)
  show ?thesis
  proof (cases "err_size st - (err_position st + rc) < 1024")
    case False
    then show ?thesis using assms True p h by (simp add: advance_err_def Let_def)
  next
    case grow: True
    have small: "err_size st < 2 ^ 30" using grow assms True by simp
    have m: "int_mul (err_size st) 2 = 2 * err_size st"
      using small assms by (simp add: int_mul_def wrap32_def)
    have a: "int_add (err_size st) 65536 = err_size st + 65536"
      using small assms by (simp add: int_add_def wrap32_def)
    have mc: "min_c (2 * err_size st) (err_size st + 65536) = min (2 * err_size st) (err_size st + 65536)"
      by (simp add: min_c_def min_def)
    have s: "size_t_of (min (2 * err_size st) (err_size st + 65536)) = min (2 * err_size st) (err_size st + 65536)"
      using small assms by (simp add: size_t_of_def)
    show ?thesis
      using assms True grow small p h m a mc s by (simp add: advance_err_def Let_def)
  qed
qed


lemma out_bytes_simps [simp]:
  "out_bytes [] = 0"
  "out_bytes (tr @ tr') = out_bytes tr + out_bytes tr'"
  "out_bytes (drain_reads c st rc rc2) = max 0 rc"
  "out_bytes (waitsocket fd s dir) = 0"
  "out_bytes (snd (advance_out st rc)) = 0"
  "out_bytes (snd (advance_err st rc)) = 0"
  by (simp_all add: out_bytes_def drain_ios_def drain_reads_def waitsocket_def
      advance_out_def advance_err_def Let_def)

lemma err_bytes_simps [simp]:
  "err_bytes [] = 0"
  "err_bytes (tr @ tr') = err_bytes tr + err_bytes tr'"
  "err_bytes (drain_reads c st rc rc2) = max 0 rc2"
  "err_bytes (waitsocket fd s dir) = 0"
  "err_bytes (snd (advance_out st rc)) = 0"
  "err_bytes (snd (advance_err st rc)) = 0"
  by (simp_all add: err_bytes_def drain_ios_def drain_reads_def waitsocket_def
      advance_out_def advance_err_def Let_def)

lemma out_bytes_nonneg: "0 \<le> out_bytes tr"
proof -
  have "0 \<le> io_out_bytes io" for io by (cases io) auto
  then show ?thesis unfolding out_bytes_def by (intro sum_list_nonneg) auto
qed

lemma err_bytes_nonneg: "0 \<le> err_bytes tr"
proof -
  have "0 \<le> io_err_bytes io" for io by (cases io) auto
  then show ?thesis unfolding err_bytes_def by (intro sum_list_nonneg) auto
qed

lemma read_lengths:
  assumes "0 \<le> out_position st" "out_position st < out_size st" "out_size st < 2 ^ 31"
  shows "int_sub (int_sub (out_size st) (out_position st)) 1 = out_size st - out_position st - 1"
  using assms by (simp add: int_sub_def wrap32_def)

lemma read_lengths_err:
  assumes "0 \<le> err_position st" "err_position st < err_size st" "err_size st < 2 ^ 31"
  shows "int_sub (int_sub (err_size st) (err_position st)) 1 = err_size st - err_position st - 1"
  using assms by (simp add: int_sub_def wrap32_def)

lemma drain_loop_inv:
  assumes "drain_loop session channel st answers = (r, st', tr)"
    and "0 \<le> out_position st" "out_position st < out_size st" "out_size st < 2 ^ 31"
        "out_block st = out_size st"
    and "0 \<le> err_position st" "err_position st < err_size st" "err_size st < 2 ^ 31"
        "err_block st = err_size st"
    and "\<forall>io \<in> set (drain_ios tr). io_within_request io"
    and "out_position st + out_bytes tr \<le> 2 ^ 30 - 1024"
    and "err_position st + err_bytes tr \<le> 2 ^ 30 - 1024"
  shows "(0 \<le> out_position st' \<and> out_position st' < out_size st' \<and> out_size st' < 2 ^ 31
           \<and> out_block st' = out_size st')
       \<and> (0 \<le> err_position st' \<and> err_position st' < err_size st' \<and> err_size st' < 2 ^ 31
           \<and> err_block st' = err_size st')
       \<and> (\<forall>io \<in> set (drain_ios tr). io_length_nonneg io)"
  using assms
proof (induction answers arbitrary: st r st' tr)
  case Nil
  then show ?case by simp
next
  case (Cons a answers)
  obtain rc rc2 dir where a: "a = (rc, rc2, dir)" by (cases a) auto
  note inv_out = Cons.prems(2-5) and inv_err = Cons.prems(6-9)
  have lo: "int_sub (int_sub (out_size st) (out_position st)) 1 = out_size st - out_position st - 1"
    using inv_out by (intro read_lengths) auto
  have le: "int_sub (int_sub (err_size st) (err_position st)) 1 = err_size st - err_position st - 1"
    using inv_err by (intro read_lengths_err) auto
  have len_ok: "\<forall>io \<in> set (drain_ios (drain_reads channel st rc rc2)). io_length_nonneg io"
    using inv_out inv_err lo le by simp
  from Cons.prems(1) [unfolded a] show ?case
  proof (cases rule: drain_loop_Cons_cases)
    case break
    with Cons.prems len_ok show ?thesis by simp
  next
    case read_error
    with Cons.prems len_ok show ?thesis by simp
  next
    case (wait tr')
    have c': "\<forall>io \<in> set (drain_ios tr'). io_within_request io"
      using Cons.prems(10) unfolding wait(4) by simp
    have bo: "out_position st + out_bytes tr' \<le> 2 ^ 30 - 1024"
      using Cons.prems(11) unfolding wait(4) by simp
    have be: "err_position st + err_bytes tr' \<le> 2 ^ 30 - 1024"
      using Cons.prems(12) unfolding wait(4) by simp
    have "(0 \<le> out_position st' \<and> out_position st' < out_size st' \<and> out_size st' < 2 ^ 31
           \<and> out_block st' = out_size st')
       \<and> (0 \<le> err_position st' \<and> err_position st' < err_size st' \<and> err_size st' < 2 ^ 31
           \<and> err_block st' = err_size st')
       \<and> (\<forall>io \<in> set (drain_ios tr'). io_length_nonneg io)"
      by (rule Cons.IH [OF wait(3) inv_out inv_err c' bo be])
    with len_ok show ?thesis unfolding wait(4) by simp
  next
    case (advance tr')
    let ?st1 = "fst (advance_out st rc)"
    let ?st2 = "fst (advance_err ?st1 rc2)"
    have c_head: "rc \<le> out_size st - out_position st - 1" "rc2 \<le> err_size st - err_position st - 1"
      using Cons.prems(10) lo le unfolding advance(6) by simp_all
    have c': "\<forall>io \<in> set (drain_ios tr'). io_within_request io"
      using Cons.prems(10) unfolding advance(6) by simp
    have bo: "out_position st + max 0 rc + out_bytes tr' \<le> 2 ^ 30 - 1024"
      using Cons.prems(11) unfolding advance(6) by simp
    have be: "err_position st + max 0 rc2 + err_bytes tr' \<le> 2 ^ 30 - 1024"
      using Cons.prems(12) unfolding advance(6) by simp
    have bo1: "out_position st + max 0 rc \<le> 2 ^ 30 - 1024"
      using bo out_bytes_nonneg [of tr'] by linarith
    have be1: "err_position st + max 0 rc2 \<le> 2 ^ 30 - 1024"
      using be err_bytes_nonneg [of tr'] by linarith
    note s1 = advance_out_step [OF inv_out(1-3) c_head(1) bo1]
    have e1: "0 \<le> err_position ?st1" "err_position ?st1 < err_size ?st1" "err_size ?st1 < 2 ^ 31"
      "rc2 \<le> err_size ?st1 - err_position ?st1 - 1"
      "err_position ?st1 + max 0 rc2 \<le> 2 ^ 30 - 1024"
      using s1 inv_err c_head(2) be1 by simp_all
    note s2 = advance_err_step [OF e1]
    have o2: "0 \<le> out_position ?st2" "out_position ?st2 < out_size ?st2" "out_size ?st2 < 2 ^ 31"
      "out_block ?st2 = out_size ?st2"
      using s1 s2 inv_out by (simp_all split: if_splits)
    have e2: "0 \<le> err_position ?st2" "err_position ?st2 < err_size ?st2" "err_size ?st2 < 2 ^ 31"
      "err_block ?st2 = err_size ?st2"
      using s1 s2 inv_err by (simp_all split: if_splits)
    have bo2: "out_position ?st2 + out_bytes tr' \<le> 2 ^ 30 - 1024"
      using s1 s2 bo by simp
    have be2: "err_position ?st2 + err_bytes tr' \<le> 2 ^ 30 - 1024"
      using s1 s2 be by simp
    have "(0 \<le> out_position st' \<and> out_position st' < out_size st' \<and> out_size st' < 2 ^ 31
           \<and> out_block st' = out_size st')
       \<and> (0 \<le> err_position st' \<and> err_position st' < err_size st' \<and> err_size st' < 2 ^ 31
           \<and> err_block st' = err_size st')
       \<and> (\<forall>io \<in> set (drain_ios tr'). io_length_nonneg io)"
      by (rule Cons.IH [OF advance(5) o2 e2 c' bo2 be2])
    with len_ok show ?thesis unfolding advance(6) by simp
  qed
qed

text \<open>
  From the initial state of line 252, for an engine that never returns more bytes than
  were asked for and a command that delivers at most \<open>2 ^ 30 - 1024\<close> bytes on each
  stream, the fill positions stay within \<open>0 .. size - 1\<close> at every point of the drain
  loop, every read asks for a length that is not negative, the positions lie inside the
  blocks allocated, and the buffers are shrunk to the fill position plus one.
\<close>

lemma positions_within_buffers_below_overflow:
  assumes "drain_loop session channel drain_init answers = (r, st, tr)"
    and "\<forall>io \<in> set (drain_ios tr). io_within_request io"
    and "out_bytes tr \<le> 2 ^ 30 - 1024" "err_bytes tr \<le> 2 ^ 30 - 1024"
  shows "0 \<le> out_position st \<and> out_position st \<le> out_size st - 1
       \<and> 0 \<le> err_position st \<and> err_position st \<le> err_size st - 1
       \<and> (\<forall>io \<in> set (drain_ios tr). io_length_nonneg io)
       \<and> out_position st < out_block st \<and> err_position st < err_block st
       \<and> finish_buffers st result =
           (result\<lparr>out := Some (out_position st + 1), err := Some (err_position st + 1)\<rparr>,
            [Mem (E_store Blk_out (out_position st)),
             Mem (E_realloc Blk_out (out_position st + 1)),
             Mem (E_store Blk_err (err_position st)),
             Mem (E_realloc Blk_err (err_position st + 1))])"
proof -
  have inv: "(0 \<le> out_position st \<and> out_position st < out_size st \<and> out_size st < 2 ^ 31
           \<and> out_block st = out_size st)
       \<and> (0 \<le> err_position st \<and> err_position st < err_size st \<and> err_size st < 2 ^ 31
           \<and> err_block st = err_size st)
       \<and> (\<forall>io \<in> set (drain_ios tr). io_length_nonneg io)"
    using assms(3,4)
    by (intro drain_loop_inv [OF assms(1) _ _ _ _ _ _ _ _ assms(2)])
       (simp_all add: drain_init_def size_t_of_def)
  have o: "size_t_of (int_add (out_position st) 1) = out_position st + 1"
    using inv by (simp add: int_add_def wrap32_def size_t_of_def)
  have e: "size_t_of (int_add (err_position st) 1) = err_position st + 1"
    using inv by (simp add: int_add_def wrap32_def size_t_of_def)
  show ?thesis
    using inv o e by (simp add: finish_buffers_def)
qed

section \<open>Command executor: a gibibyte of output\<close>

text \<open>
  A command whose standard output arrives as fast as the buffer takes it: each read
  returns exactly the length asked for, and standard error delivers nothing. The capacity
  doubles from 128 to 131072 bytes and then grows by 65536 bytes with every read.
\<close>

lemma drain_loop_append:
  assumes "drain_loop s c st xs = (Pending, st1, tr1)"
  shows "drain_loop s c st (xs @ ys) =
           (case drain_loop s c st1 ys of (r, st2, tr2) \<Rightarrow> (r, st2, tr1 @ tr2))"
  using assms
proof (induction xs arbitrary: st st1 tr1)
  case Nil
  then show ?case by (simp split: prod.splits)
next
  case (Cons a xs)
  obtain rc rc2 dir where a: "a = (rc, rc2, dir)" by (cases a) auto
  from Cons.prems [unfolded a] show ?case
  proof (cases rule: drain_loop_Cons_cases)
    case (wait tr')
    have b: "drain_branch_of rc rc2 = Drain_wait"
      using wait(1,2) by (simp add: drain_branch_of_def LIBSSH2_ERROR_EAGAIN_def)
    show ?thesis
      unfolding a using Cons.IH [OF wait(3)] b wait(4)
      by (simp split: prod.splits)
  next
    case (advance tr')
    have b: "drain_branch_of rc rc2 = Drain_advance"
      using advance(1-4) unfolding drain_branch_of_def by (simp only: if_False simp_thms)
    obtain sa ta where ao: "advance_out st rc = (sa, ta)"
      by (cases "advance_out st rc") auto
    obtain sb tb where ae: "advance_err sa rc2 = (sb, tb)"
      by (cases "advance_err sa rc2") auto
    have rec: "drain_loop s c sb xs = (Pending, st1, tr')"
      using advance(5) ao ae by simp
    have t: "tr1 = drain_reads c st rc rc2 @ ta @ tb @ tr'"
      using advance(6) ao ae by simp
    obtain r2 st2 tr2 where ys: "drain_loop s c st1 ys = (r2, st2, tr2)"
      by (cases "drain_loop s c st1 ys") auto
    have "drain_loop s c sb (xs @ ys) = (r2, st2, tr' @ tr2)"
      using Cons.IH [OF rec] ys by simp
    then show ?thesis
      unfolding a using b ao ae t ys by simp
  qed simp_all
qed

lemma greedy_linear:
  assumes "2 \<le> k" "k + int n \<le> 16384"
  shows "\<exists>tr. drain_loop s c
           \<lparr>out_size = 65536 * k, out_position = 65536 * k - 65537, err_size = 128,
            err_position = 0, out_block = 65536 * k, err_block = 128\<rparr>
           (replicate n (65536, 0, 0)) =
         (Pending,
          \<lparr>out_size = 65536 * (k + int n), out_position = 65536 * (k + int n) - 65537,
           err_size = 128, err_position = 0, out_block = 65536 * (k + int n),
           err_block = 128\<rparr>, tr)
       \<and> list_all io_within_request (drain_ios tr)"
  using assms
proof (induction n arbitrary: k)
  case 0
  then show ?case by simp
next
  case (Suc n)
  let ?st = "\<lparr>out_size = 65536 * k, out_position = 65536 * k - 65537, err_size = 128,
            err_position = 0, out_block = 65536 * k, err_block = 128\<rparr>"
  let ?st1 = "\<lparr>out_size = 65536 * (k + 1), out_position = 65536 * (k + 1) - 65537,
            err_size = 128, err_position = 0, out_block = 65536 * (k + 1), err_block = 128\<rparr>"
  have k: "2 \<le> k" "k < 16384" using Suc.prems by simp_all
  have b: "drain_branch_of 65536 0 = Drain_advance"
    by (simp add: drain_branch_of_def LIBSSH2_ERROR_EAGAIN_def)
  have g: "advance_out ?st 65536 =
      (?st1, [Mem (E_realloc Blk_out (65536 * (k + 1)))])"
  proof -
    have m: "min (2 * (65536 * k)) (65536 * k + 65536) = 65536 * (k + 1)"
      using k by simp
    have "advance_out ?st 65536 =
       (if out_size ?st - (out_position ?st + 65536) < 1024
        then (?st\<lparr>out_position := out_position ?st + 65536,
                 out_size := min (2 * out_size ?st) (out_size ?st + 65536),
                 out_block := min (2 * out_size ?st) (out_size ?st + 65536)\<rparr>,
              [Mem (E_realloc Blk_out (min (2 * out_size ?st) (out_size ?st + 65536)))])
        else (?st\<lparr>out_position := out_position ?st + 65536\<rparr>, []))"
      using k by (intro advance_out_grow) simp_all
    then show ?thesis using m by simp
  qed
  have e: "advance_err ?st1 0 = (?st1, [])"
    by (simp add: advance_err_def)
  have len: "int_sub (int_sub (out_size ?st) (out_position ?st)) 1 = 65536"
    using k by (simp add: int_sub_def wrap32_def)
  have "2 \<le> k + 1" "k + 1 + int n \<le> 16384" using Suc.prems by simp_all
  from Suc.IH [OF this] obtain tr where
    rec: "drain_loop s c ?st1 (replicate n (65536, 0, 0)) =
         (Pending,
          \<lparr>out_size = 65536 * (k + 1 + int n), out_position = 65536 * (k + 1 + int n) - 65537,
           err_size = 128, err_position = 0, out_block = 65536 * (k + 1 + int n),
           err_block = 128\<rparr>, tr)"
    and ok: "list_all io_within_request (drain_ios tr)"
    by blast
  have eq: "k + 1 + int n = k + int (Suc n)" by simp
  have run: "drain_loop s c ?st (replicate (Suc n) (65536, 0, 0)) =
         (Pending,
          \<lparr>out_size = 65536 * (k + int (Suc n)), out_position = 65536 * (k + int (Suc n)) - 65537,
           err_size = 128, err_position = 0, out_block = 65536 * (k + int (Suc n)),
           err_block = 128\<rparr>,
          drain_reads c ?st 65536 0 @ [Mem (E_realloc Blk_out (65536 * (k + 1)))] @ [] @ tr)"
    using b g e rec unfolding eq by simp
  have "list_all io_within_request
          (drain_ios (drain_reads c ?st 65536 0 @ [Mem (E_realloc Blk_out (65536 * (k + 1)))] @ [] @ tr))"
    using ok len by (simp add: int_sub_def wrap32_def)
  with run show ?case by blast
qed


lemma greedy_cons:
  assumes "\<exists>tr. drain_loop s c st [a] = (Pending, st1, tr)
             \<and> list_all io_within_request (drain_ios tr)"
    and "\<exists>tr. drain_loop s c st1 ys = (r, st2, tr) \<and> list_all io_within_request (drain_ios tr)"
  shows "\<exists>tr. drain_loop s c st (a # ys) = (r, st2, tr)
           \<and> list_all io_within_request (drain_ios tr)"
proof -
  from assms obtain tr1 tr2 where
    a: "drain_loop s c st [a] = (Pending, st1, tr1)" "list_all io_within_request (drain_ios tr1)"
    and b: "drain_loop s c st1 ys = (r, st2, tr2)" "list_all io_within_request (drain_ios tr2)"
    by blast
  have "drain_loop s c st (a # ys) = (r, st2, tr1 @ tr2)"
    using drain_loop_append [OF a(1), of ys] b(1) by simp
  moreover have "list_all io_within_request (drain_ios (tr1 @ tr2))"
    using a(2) b(2) by simp
  ultimately show ?thesis by blast
qed

lemma greedy_doubling:
  "\<exists>tr. drain_loop s c
           \<lparr>out_size = 128, out_position = 0, err_size = 128, err_position = 0,
            out_block = 128, err_block = 128\<rparr>
           [(127, 0, 0), (128, 0, 0), (256, 0, 0), (512, 0, 0), (1024, 0, 0), (2048, 0, 0),
            (4096, 0, 0), (8192, 0, 0), (16384, 0, 0), (32768, 0, 0)] =
         (Pending,
          \<lparr>out_size = 131072, out_position = 65535, err_size = 128, err_position = 0,
           out_block = 131072, err_block = 128\<rparr>, tr)
       \<and> list_all io_within_request (drain_ios tr)"
proof -
  have s0: "\<exists>tr. drain_loop s c
      \<lparr>out_size = 128, out_position = 0, err_size = 128, err_position = 0,
       out_block = 128, err_block = 128\<rparr>
      [(127, 0, 0)] =
      (Pending,
      \<lparr>out_size = 256, out_position = 127, err_size = 128, err_position = 0,
       out_block = 256, err_block = 128\<rparr>, tr)
    \<and> list_all io_within_request (drain_ios tr)"
    by (simp add: drain_branch_of_def drain_reads_def advance_out_def
        advance_err_def Let_def hdr_defs cint_defs)
  have s1: "\<exists>tr. drain_loop s c
      \<lparr>out_size = 256, out_position = 127, err_size = 128, err_position = 0,
       out_block = 256, err_block = 128\<rparr>
      [(128, 0, 0)] =
      (Pending,
      \<lparr>out_size = 512, out_position = 255, err_size = 128, err_position = 0,
       out_block = 512, err_block = 128\<rparr>, tr)
    \<and> list_all io_within_request (drain_ios tr)"
    by (simp add: drain_branch_of_def drain_reads_def advance_out_def
        advance_err_def Let_def hdr_defs cint_defs)
  have s2: "\<exists>tr. drain_loop s c
      \<lparr>out_size = 512, out_position = 255, err_size = 128, err_position = 0,
       out_block = 512, err_block = 128\<rparr>
      [(256, 0, 0)] =
      (Pending,
      \<lparr>out_size = 1024, out_position = 511, err_size = 128, err_position = 0,
       out_block = 1024, err_block = 128\<rparr>, tr)
    \<and> list_all io_within_request (drain_ios tr)"
    by (simp add: drain_branch_of_def drain_reads_def advance_out_def
        advance_err_def Let_def hdr_defs cint_defs)
  have s3: "\<exists>tr. drain_loop s c
      \<lparr>out_size = 1024, out_position = 511, err_size = 128, err_position = 0,
       out_block = 1024, err_block = 128\<rparr>
      [(512, 0, 0)] =
      (Pending,
      \<lparr>out_size = 2048, out_position = 1023, err_size = 128, err_position = 0,
       out_block = 2048, err_block = 128\<rparr>, tr)
    \<and> list_all io_within_request (drain_ios tr)"
    by (simp add: drain_branch_of_def drain_reads_def advance_out_def
        advance_err_def Let_def hdr_defs cint_defs)
  have s4: "\<exists>tr. drain_loop s c
      \<lparr>out_size = 2048, out_position = 1023, err_size = 128, err_position = 0,
       out_block = 2048, err_block = 128\<rparr>
      [(1024, 0, 0)] =
      (Pending,
      \<lparr>out_size = 4096, out_position = 2047, err_size = 128, err_position = 0,
       out_block = 4096, err_block = 128\<rparr>, tr)
    \<and> list_all io_within_request (drain_ios tr)"
    by (simp add: drain_branch_of_def drain_reads_def advance_out_def
        advance_err_def Let_def hdr_defs cint_defs)
  have s5: "\<exists>tr. drain_loop s c
      \<lparr>out_size = 4096, out_position = 2047, err_size = 128, err_position = 0,
       out_block = 4096, err_block = 128\<rparr>
      [(2048, 0, 0)] =
      (Pending,
      \<lparr>out_size = 8192, out_position = 4095, err_size = 128, err_position = 0,
       out_block = 8192, err_block = 128\<rparr>, tr)
    \<and> list_all io_within_request (drain_ios tr)"
    by (simp add: drain_branch_of_def drain_reads_def advance_out_def
        advance_err_def Let_def hdr_defs cint_defs)
  have s6: "\<exists>tr. drain_loop s c
      \<lparr>out_size = 8192, out_position = 4095, err_size = 128, err_position = 0,
       out_block = 8192, err_block = 128\<rparr>
      [(4096, 0, 0)] =
      (Pending,
      \<lparr>out_size = 16384, out_position = 8191, err_size = 128, err_position = 0,
       out_block = 16384, err_block = 128\<rparr>, tr)
    \<and> list_all io_within_request (drain_ios tr)"
    by (simp add: drain_branch_of_def drain_reads_def advance_out_def
        advance_err_def Let_def hdr_defs cint_defs)
  have s7: "\<exists>tr. drain_loop s c
      \<lparr>out_size = 16384, out_position = 8191, err_size = 128, err_position = 0,
       out_block = 16384, err_block = 128\<rparr>
      [(8192, 0, 0)] =
      (Pending,
      \<lparr>out_size = 32768, out_position = 16383, err_size = 128, err_position = 0,
       out_block = 32768, err_block = 128\<rparr>, tr)
    \<and> list_all io_within_request (drain_ios tr)"
    by (simp add: drain_branch_of_def drain_reads_def advance_out_def
        advance_err_def Let_def hdr_defs cint_defs)
  have s8: "\<exists>tr. drain_loop s c
      \<lparr>out_size = 32768, out_position = 16383, err_size = 128, err_position = 0,
       out_block = 32768, err_block = 128\<rparr>
      [(16384, 0, 0)] =
      (Pending,
      \<lparr>out_size = 65536, out_position = 32767, err_size = 128, err_position = 0,
       out_block = 65536, err_block = 128\<rparr>, tr)
    \<and> list_all io_within_request (drain_ios tr)"
    by (simp add: drain_branch_of_def drain_reads_def advance_out_def
        advance_err_def Let_def hdr_defs cint_defs)
  have s9: "\<exists>tr. drain_loop s c
      \<lparr>out_size = 65536, out_position = 32767, err_size = 128, err_position = 0,
       out_block = 65536, err_block = 128\<rparr>
      [(32768, 0, 0)] =
      (Pending,
      \<lparr>out_size = 131072, out_position = 65535, err_size = 128, err_position = 0,
       out_block = 131072, err_block = 128\<rparr>, tr)
    \<and> list_all io_within_request (drain_ios tr)"
    by (simp add: drain_branch_of_def drain_reads_def advance_out_def
        advance_err_def Let_def hdr_defs cint_defs)
  have base: "\<exists>tr. drain_loop s c
      \<lparr>out_size = 131072, out_position = 65535, err_size = 128, err_position = 0,
       out_block = 131072, err_block = 128\<rparr> [] =
      (Pending,
      \<lparr>out_size = 131072, out_position = 65535, err_size = 128, err_position = 0,
       out_block = 131072, err_block = 128\<rparr>, tr)
    \<and> list_all io_within_request (drain_ios tr)"
    by simp
  show ?thesis
    by (rule greedy_cons [OF s0 greedy_cons [OF s1 greedy_cons [OF s2 greedy_cons [OF s3 greedy_cons [OF s4 greedy_cons [OF s5 greedy_cons [OF s6 greedy_cons [OF s7 greedy_cons [OF s8 greedy_cons [OF s9 base]]]]]]]]]])
qed

lemma drain_init_eq:
  "drain_init = \<lparr>out_size = 128, out_position = 0, err_size = 128, err_position = 0,
                 out_block = 128, err_block = 128\<rparr>"
  by (simp add: drain_init_def size_t_of_def)

lemma greedy_overflow_step:
  "\<exists>tr. drain_loop s c
           \<lparr>out_size = 1073741824, out_position = 1073676287, err_size = 128,
            err_position = 0, out_block = 1073741824, err_block = 128\<rparr>
           [(65536, 0, 0)] =
         (Pending,
          \<lparr>out_size = - 2147483648, out_position = 1073741823, err_size = 128,
           err_position = 0, out_block = 18446744071562067968, err_block = 128\<rparr>, tr)
       \<and> list_all io_within_request (drain_ios tr)"
  by (simp add: drain_branch_of_def drain_reads_def advance_out_def
      advance_err_def Let_def hdr_defs cint_defs)

lemma greedy_run:
  "\<exists>tr0 tr.
     drain_loop s c drain_init
       ([(127, 0, 0), (128, 0, 0), (256, 0, 0), (512, 0, 0), (1024, 0, 0), (2048, 0, 0),
            (4096, 0, 0), (8192, 0, 0), (16384, 0, 0), (32768, 0, 0)]
        @ replicate 16382 (65536, 0, 0)) =
       (Pending,
        \<lparr>out_size = 1073741824, out_position = 1073676287, err_size = 128,
         err_position = 0, out_block = 1073741824, err_block = 128\<rparr>, tr0)
   \<and> drain_loop s c drain_init
       ([(127, 0, 0), (128, 0, 0), (256, 0, 0), (512, 0, 0), (1024, 0, 0), (2048, 0, 0),
            (4096, 0, 0), (8192, 0, 0), (16384, 0, 0), (32768, 0, 0)]
        @ replicate 16382 (65536, 0, 0) @ [(65536, 0, 0)]) =
       (Pending,
        \<lparr>out_size = - 2147483648, out_position = 1073741823, err_size = 128,
         err_position = 0, out_block = 18446744071562067968, err_block = 128\<rparr>, tr)
   \<and> list_all io_within_request (drain_ios tr)"
proof -
  let ?P = "[(127, 0, 0), (128, 0, 0), (256, 0, 0), (512, 0, 0), (1024, 0, 0), (2048, 0, 0),
            (4096, 0, 0), (8192, 0, 0), (16384, 0, 0), (32768, 0, 0)]"
  let ?A = "\<lparr>out_size = 131072, out_position = 65535, err_size = 128, err_position = 0,
           out_block = 131072, err_block = 128\<rparr>"
  let ?B = "\<lparr>out_size = 1073741824, out_position = 1073676287, err_size = 128,
            err_position = 0, out_block = 1073741824, err_block = 128\<rparr>"
  let ?C = "\<lparr>out_size = - 2147483648, out_position = 1073741823, err_size = 128,
           err_position = 0, out_block = 18446744071562067968, err_block = 128\<rparr>"
  obtain ta where a: "drain_loop s c drain_init ?P = (Pending, ?A, ta)"
    and oka: "list_all io_within_request (drain_ios ta)"
    using greedy_doubling [of s c] unfolding drain_init_eq by blast
  obtain tb where b: "drain_loop s c ?A (replicate 16382 (65536, 0, 0)) = (Pending, ?B, tb)"
    and okb: "list_all io_within_request (drain_ios tb)"
    using greedy_linear [of 2 16382 s c] by auto
  obtain tc where c: "drain_loop s c ?B [(65536, 0, 0)] = (Pending, ?C, tc)"
    and okc: "list_all io_within_request (drain_ios tc)"
    using greedy_overflow_step [of s c] by blast
  have ab: "drain_loop s c drain_init (?P @ replicate 16382 (65536, 0, 0)) = (Pending, ?B, ta @ tb)"
    using drain_loop_append [OF a, of "replicate 16382 (65536, 0, 0)"] b by simp
  have bc: "drain_loop s c ?A (replicate 16382 (65536, 0, 0) @ [(65536, 0, 0)])
              = (Pending, ?C, tb @ tc)"
    using drain_loop_append [OF b, of "[(65536, 0, 0)]"] c by simp
  have abc: "drain_loop s c drain_init (?P @ replicate 16382 (65536, 0, 0) @ [(65536, 0, 0)])
              = (Pending, ?C, ta @ tb @ tc)"
    using drain_loop_append [OF a, of "replicate 16382 (65536, 0, 0) @ [(65536, 0, 0)]"] bc
    by simp
  have ok: "list_all io_within_request (drain_ios (ta @ tb @ tc))"
    using oka okb okc by simp
  from ab abc ok show ?thesis by blast
qed

text \<open>
  C8. The claim: whenever the headroom is below 1024 bytes after a successful read, the
  new capacity is exactly \<open>min (2 * old) (old + 65536)\<close>. In the run below every read
  stays within the length asked for. After 10 + 16382 reads the capacity is \<open>2 ^ 30\<close>; the
  next read fills the buffer up to one byte, and the growth step of line 275 computes
  \<^verbatim>\<open>out_size * 2\<close>, which is beyond a C \<^verbatim>\<open>int\<close>: the new capacity is \<open>- 2 ^ 31\<close> and
  \<^verbatim>\<open>realloc\<close> is asked for \<open>2 ^ 64 - 2 ^ 31\<close> bytes, where the claim gives 1073807360.
\<close>

theorem C8_growth_overflows_at_one_gibibyte:
  "\<exists>tr0 tr.
     drain_loop \<lparr>sock = 3, lsession = Some 7\<rparr> 9 drain_init
       ([(127, 0, 0), (128, 0, 0), (256, 0, 0), (512, 0, 0), (1024, 0, 0), (2048, 0, 0),
            (4096, 0, 0), (8192, 0, 0), (16384, 0, 0), (32768, 0, 0)]
        @ replicate 16382 (65536, 0, 0)) =
       (Pending,
        \<lparr>out_size = 1073741824, out_position = 1073676287, err_size = 128,
         err_position = 0, out_block = 1073741824, err_block = 128\<rparr>, tr0)
   \<and> drain_loop \<lparr>sock = 3, lsession = Some 7\<rparr> 9 drain_init
       ([(127, 0, 0), (128, 0, 0), (256, 0, 0), (512, 0, 0), (1024, 0, 0), (2048, 0, 0),
            (4096, 0, 0), (8192, 0, 0), (16384, 0, 0), (32768, 0, 0)]
        @ replicate 16382 (65536, 0, 0) @ [(65536, 0, 0)]) =
       (Pending,
        \<lparr>out_size = - 2147483648, out_position = 1073741823, err_size = 128,
         err_position = 0, out_block = 18446744071562067968, err_block = 128\<rparr>, tr)
   \<and> list_all io_within_request (drain_ios tr)
   \<and> min (2 * 1073741824) (1073741824 + 65536) = (1073807360 :: int)"
  using greedy_run [of "\<lparr>sock = 3, lsession = Some 7\<rparr>" 9] by simp

text \<open>
  C9. The claim: throughout the drain loop the fill position is at most the capacity
  minus one. At the end of the same run, with every read within the length asked for,
  \<^verbatim>\<open>out_position\<close> is \<open>2 ^ 30 - 1\<close> and \<^verbatim>\<open>out_size\<close> is \<open>- 2 ^ 31\<close>: the position is
  beyond the capacity the loop goes on with.
\<close>

theorem C9_position_outside_size_at_one_gibibyte:
  "\<exists>st tr.
     drain_loop \<lparr>sock = 3, lsession = Some 7\<rparr> 9 drain_init
       ([(127, 0, 0), (128, 0, 0), (256, 0, 0), (512, 0, 0), (1024, 0, 0), (2048, 0, 0),
            (4096, 0, 0), (8192, 0, 0), (16384, 0, 0), (32768, 0, 0)]
        @ replicate 16382 (65536, 0, 0) @ [(65536, 0, 0)]) = (Pending, st, tr)
   \<and> list_all io_within_request (drain_ios tr)
   \<and> out_position st = 1073741823 \<and> out_size st = - 2147483648
   \<and> \<not> out_position st \<le> out_size st - 1"
proof -
  from greedy_run [of "\<lparr>sock = 3, lsession = Some 7\<rparr>" 9] obtain tr where
    "drain_loop \<lparr>sock = 3, lsession = Some 7\<rparr> 9 drain_init
       ([(127, 0, 0), (128, 0, 0), (256, 0, 0), (512, 0, 0), (1024, 0, 0), (2048, 0, 0),
            (4096, 0, 0), (8192, 0, 0), (16384, 0, 0), (32768, 0, 0)]
        @ replicate 16382 (65536, 0, 0) @ [(65536, 0, 0)]) =
       (Pending,
        \<lparr>out_size = - 2147483648, out_position = 1073741823, err_size = 128,
         err_position = 0, out_block = 18446744071562067968, err_block = 128\<rparr>, tr)"
    "list_all io_within_request (drain_ios tr)"
    by blast
  then show ?thesis by simp
qed

section \<open>Command executor: the whole call\<close>

lemma close_codes_simps [simp]:
  "close_codes [] = []"
  "close_codes (ev # tr) = close_code_of ev @ close_codes tr"
  "close_codes (tr @ tr') = close_codes tr @ close_codes tr'"
  by (simp_all add: close_codes_def)

lemma close_codes_parts [simp]:
  "close_codes (waitsocket fd s dir) = []"
  "close_codes (drain_reads c st rc rc2) = []"
  "close_codes (snd (advance_out st rc)) = []"
  "close_codes (snd (advance_err st rc)) = []"
  "close_codes (snd (finish_buffers st result)) = []"
  by (simp_all add: waitsocket_def drain_reads_def advance_out_def advance_err_def
      finish_buffers_def Let_def)

lemma drain_ios_finish_buffers [simp]: "drain_ios (snd (finish_buffers st result)) = []"
  by (simp add: finish_buffers_def)

lemma channel_open_loop_views:
  assumes "channel_open_loop call session answers = (r, tr)"
    and "\<forall>c. drain_io_of (call c) = []" "\<forall>c. close_code_of (call c) = []"
  shows "(\<forall>io \<in> set (drain_ios tr). \<not> io_hard_error io) \<and> close_codes tr = []"
  using assms(1)
proof (induction answers arbitrary: r tr)
  case Nil
  then show ?case by simp
next
  case (Cons a answers)
  obtain ch e d where a: "a = (ch, e, d)" by (cases a) auto
  show ?case
  proof (cases ch)
    case (Some c)
    with Cons.prems a assms(2,3) show ?thesis by auto
  next
    case None
    show ?thesis
    proof (cases "e = LIBSSH2_ERROR_EAGAIN")
      case False
      with Cons.prems a None assms(2,3) show ?thesis by (auto simp: Let_def)
    next
      case True
      obtain r0 tr0 where rec: "channel_open_loop call session answers = (r0, tr0)"
        by (cases "channel_open_loop call session answers") auto
      from Cons.IH [OF rec] Cons.prems a None True rec assms(2,3) show ?thesis
        by (auto simp: Let_def)
    qed
  qed
qed

lemma channel_exec_loop_views:
  assumes "channel_exec_loop session c command answers = (r, tr)"
  shows "(\<forall>io \<in> set (drain_ios tr). \<not> io_hard_error io) \<and> close_codes tr = []"
  using assms
proof (induction answers arbitrary: r tr)
  case Nil
  then show ?case by simp
next
  case (Cons a answers)
  obtain rc d where a: "a = (rc, d)" by (cases a) auto
  obtain r0 tr0 where rec: "channel_exec_loop session c command answers = (r0, tr0)"
    by (cases "channel_exec_loop session c command answers") auto
  from Cons.IH [OF rec] Cons.prems a rec show ?case
    by (auto split: if_splits)
qed

lemma channel_close_loop_views:
  assumes "channel_close_loop session c answers = (r, tr)"
  shows "(\<forall>io \<in> set (drain_ios tr). \<not> io_hard_error io)
       \<and> (\<forall>rc. r = Some rc \<longrightarrow>
             close_codes tr \<noteq> [] \<and> last (close_codes tr) = rc
           \<and> (\<exists>tr'. tr = tr' @ [Chan (E_channel_close c rc)]))"
  using assms
proof (induction answers arbitrary: r tr)
  case Nil
  then show ?case by simp
next
  case (Cons a answers)
  obtain rc d where a: "a = (rc, d)" by (cases a) auto
  show ?case
  proof (cases "rc = LIBSSH2_ERROR_EAGAIN")
    case False
    with Cons.prems a show ?thesis by auto
  next
    case True
    obtain r0 tr0 where rec: "channel_close_loop session c answers = (r0, tr0)"
      by (cases "channel_close_loop session c answers") auto
    have eqs: "r = r0"
      "tr = Chan (E_channel_close c rc) # waitsocket (sock session) (lsession session) d @ tr0"
      using Cons.prems a True rec by auto
    note IH = Cons.IH [OF rec]
    have "\<exists>tr'. tr = tr' @ [Chan (E_channel_close c x)]" if "r0 = Some x" for x
    proof -
      from IH that obtain tr1 where "tr0 = tr1 @ [Chan (E_channel_close c x)]" by blast
      then have "tr = (Chan (E_channel_close c rc) # waitsocket (sock session) (lsession session) d @ tr1)
                   @ [Chan (E_channel_close c x)]"
        unfolding eqs by simp
      then show ?thesis by blast
    qed
    with IH show ?thesis unfolding eqs by auto
  qed
qed

lemma drain_loop_close_codes:
  assumes "drain_loop session channel st answers = (r, st', tr)"
  shows "close_codes tr = []"
  using assms
proof (induction answers arbitrary: st r st' tr)
  case Nil
  then show ?case by simp
next
  case (Cons a answers)
  obtain rc rc2 dir where a: "a = (rc, rc2, dir)" by (cases a) auto
  from Cons.prems [unfolded a] show ?case
  proof (cases rule: drain_loop_Cons_cases)
    case break
    then show ?thesis by simp
  next
    case (wait tr')
    from Cons.IH [OF wait(3)] show ?thesis unfolding wait(4) by simp
  next
    case read_error
    then show ?thesis by simp
  next
    case (advance tr')
    from Cons.IH [OF advance(5)] show ?thesis unfolding advance(6) by simp
  qed
qed


lemma exec_command_cases:
  assumes "simplessh_exec_command session command w = (res, tr)"
  obtains
    (open_pending) tr1 where
      "channel_open_loop (\<lambda>c. Chan (E_channel_open_session (lsession session) c))
         session (channel_open_answers w) = (Pending, tr1)"
      "res = None" "tr = [Mem (E_malloc Blk_result), Mem (E_malloc Blk_either)] @ tr1"
  | (open_failed) tr1 where
      "channel_open_loop (\<lambda>c. Chan (E_channel_open_session (lsession session) c))
         session (channel_open_answers w) = (Hard_error, tr1)"
      "res = Some \<lparr>side = LEFT, u = U_error CHANNEL_OPEN\<rparr>"
      "tr = [Mem (E_malloc Blk_result), Mem (E_malloc Blk_either)] @ tr1 @ [Mem (E_free Blk_result)]"
  | (exec_pending) c tr1 tr2 where
      "channel_open_loop (\<lambda>c. Chan (E_channel_open_session (lsession session) c))
         session (channel_open_answers w) = (Completed c, tr1)"
      "channel_exec_loop session c command (channel_exec_answers w) = (Pending, tr2)"
      "res = None" "tr = [Mem (E_malloc Blk_result), Mem (E_malloc Blk_either)] @ tr1 @ tr2"
  | (exec_failed) c tr1 tr2 where
      "channel_open_loop (\<lambda>c. Chan (E_channel_open_session (lsession session) c))
         session (channel_open_answers w) = (Completed c, tr1)"
      "channel_exec_loop session c command (channel_exec_answers w) = (Hard_error, tr2)"
      "res = Some \<lparr>side = LEFT, u = U_error CHANNEL_EXEC\<rparr>"
      "tr = [Mem (E_malloc Blk_result), Mem (E_malloc Blk_either)] @ tr1 @ tr2
            @ [Mem (E_free Blk_result)]"
  | (drain_pending) c tr1 tr2 st tr4 where
      "channel_open_loop (\<lambda>c. Chan (E_channel_open_session (lsession session) c))
         session (channel_open_answers w) = (Completed c, tr1)"
      "channel_exec_loop session c command (channel_exec_answers w) = (Completed (), tr2)"
      "drain_loop session c drain_init (read_answers w) = (Pending, st, tr4)"
      "res = None"
      "tr = [Mem (E_malloc Blk_result), Mem (E_malloc Blk_either)] @ tr1 @ tr2
            @ [Mem (E_malloc_bytes Blk_out (out_block drain_init)),
               Mem (E_malloc_bytes Blk_err (err_block drain_init))] @ tr4"
  | (read_failed) c tr1 tr2 st tr4 where
      "channel_open_loop (\<lambda>c. Chan (E_channel_open_session (lsession session) c))
         session (channel_open_answers w) = (Completed c, tr1)"
      "channel_exec_loop session c command (channel_exec_answers w) = (Completed (), tr2)"
      "drain_loop session c drain_init (read_answers w) = (Hard_error, st, tr4)"
      "res = Some \<lparr>side = LEFT, u = U_error READ\<rparr>"
      "tr = [Mem (E_malloc Blk_result), Mem (E_malloc Blk_either)] @ tr1 @ tr2
            @ [Mem (E_malloc_bytes Blk_out (out_block drain_init)),
               Mem (E_malloc_bytes Blk_err (err_block drain_init))] @ tr4
            @ [Mem (E_free Blk_out), Mem (E_free Blk_err), Mem (E_free Blk_result)]"
  | (close_pending) c tr1 tr2 st tr4 tr6 where
      "channel_open_loop (\<lambda>c. Chan (E_channel_open_session (lsession session) c))
         session (channel_open_answers w) = (Completed c, tr1)"
      "channel_exec_loop session c command (channel_exec_answers w) = (Completed (), tr2)"
      "drain_loop session c drain_init (read_answers w) = (Completed (), st, tr4)"
      "channel_close_loop session c (channel_close_answers w) = (None, tr6)"
      "res = None"
      "tr = [Mem (E_malloc Blk_result), Mem (E_malloc Blk_either)] @ tr1 @ tr2
            @ [Mem (E_malloc_bytes Blk_out (out_block drain_init)),
               Mem (E_malloc_bytes Blk_err (err_block drain_init))] @ tr4
            @ snd (finish_buffers st \<lparr>out = None, err = None, exit_code = 127, exit_signal = None\<rparr>)
            @ tr6"
  | (closed) c tr1 tr2 st tr4 rc tr6 where
      "channel_open_loop (\<lambda>c. Chan (E_channel_open_session (lsession session) c))
         session (channel_open_answers w) = (Completed c, tr1)"
      "channel_exec_loop session c command (channel_exec_answers w) = (Completed (), tr2)"
      "drain_loop session c drain_init (read_answers w) = (Completed (), st, tr4)"
      "channel_close_loop session c (channel_close_answers w) = (Some rc, tr6)"
      "res = Some \<lparr>side = RIGHT, u = U_value
          (if rc = 0
           then (fst (finish_buffers st \<lparr>out = None, err = None, exit_code = 127, exit_signal = None\<rparr>))
                  \<lparr>exit_code := exit_status_answer w, exit_signal := exit_signal_answer w\<rparr>
           else fst (finish_buffers st \<lparr>out = None, err = None, exit_code = 127, exit_signal = None\<rparr>))\<rparr>"
      "tr = [Mem (E_malloc Blk_result), Mem (E_malloc Blk_either)] @ tr1 @ tr2
            @ [Mem (E_malloc_bytes Blk_out (out_block drain_init)),
               Mem (E_malloc_bytes Blk_err (err_block drain_init))] @ tr4
            @ snd (finish_buffers st \<lparr>out = None, err = None, exit_code = 127, exit_signal = None\<rparr>)
            @ tr6
            @ (if rc = 0 then [Chan (E_channel_get_exit_status c), Chan (E_channel_get_exit_signal c)]
               else [])
            @ [Chan (E_channel_free c)]"
proof -
  let ?call = "\<lambda>c. Chan (E_channel_open_session (lsession session) c)"
  let ?r0 = "\<lparr>out = None, err = None, exit_code = 127, exit_signal = None\<rparr>"
  obtain r1 tr1 where o: "channel_open_loop ?call session (channel_open_answers w) = (r1, tr1)"
    by (cases "channel_open_loop ?call session (channel_open_answers w)") auto
  show ?thesis
  proof (cases r1)
    case Pending
    with assms o show ?thesis
      by (intro open_pending [of tr1]) (auto simp: simplessh_exec_command_def)
  next
    case Hard_error
    with assms o show ?thesis
      by (intro open_failed [of tr1])
         (auto simp: simplessh_exec_command_def returnLocalErrorC_def returnError_def)
  next
    case (Completed c)
    obtain r2 tr2 where x: "channel_exec_loop session c command (channel_exec_answers w) = (r2, tr2)"
      by (cases "channel_exec_loop session c command (channel_exec_answers w)") auto
    show ?thesis
    proof (cases r2)
      case Pending
      with assms o Completed x show ?thesis
        by (intro exec_pending [of c tr1 tr2]) (auto simp: simplessh_exec_command_def)
    next
      case Hard_error
      with assms o Completed x show ?thesis
        by (intro exec_failed [of c tr1 tr2])
           (auto simp: simplessh_exec_command_def returnLocalErrorC_def returnError_def)
    next
      case xc: (Completed uu)
      obtain r3 st tr4 where d: "drain_loop session c drain_init (read_answers w) = (r3, st, tr4)"
        by (cases "drain_loop session c drain_init (read_answers w)") auto
      show ?thesis
      proof (cases r3)
        case Pending
        with assms o Completed x xc d show ?thesis
          by (intro drain_pending [of c tr1 tr2 st tr4])
             (auto simp: simplessh_exec_command_def Let_def)
      next
        case Hard_error
        with assms o Completed x xc d show ?thesis
          by (intro read_failed [of c tr1 tr2 st tr4])
             (auto simp: simplessh_exec_command_def Let_def returnLocalErrorC_def returnError_def)
      next
        case dc: (Completed vv)
        obtain res1 tr5 where f: "finish_buffers st ?r0 = (res1, tr5)"
          by (cases "finish_buffers st ?r0") auto
        obtain r6 tr6 where cl: "channel_close_loop session c (channel_close_answers w) = (r6, tr6)"
          by (cases "channel_close_loop session c (channel_close_answers w)") auto
        show ?thesis
        proof (cases r6)
          case None
          with assms o Completed x xc d dc f cl show ?thesis
            by (intro close_pending [of c tr1 tr2 st tr4 tr6])
               (auto simp: simplessh_exec_command_def Let_def)
        next
          case (Some rc)
          with assms o Completed x xc d dc f cl show ?thesis
            by (intro closed [of c tr1 tr2 st tr4 rc tr6])
               (auto simp: simplessh_exec_command_def Let_def)
        qed
      qed
    qed
  qed
qed



lemma exec_command_returned:
  assumes "simplessh_exec_command session command w = (Some e, tr)"
  shows "(side e = RIGHT) = (close_codes tr \<noteq> [])
       \<and> (side e = RIGHT \<longrightarrow>
            (\<exists>result. u e = U_value result
               \<and> (if last (close_codes tr) = 0
                   then exit_code result = exit_status_answer w
                      \<and> exit_signal result = exit_signal_answer w
                      \<and> (\<exists>tr' c. tr = tr' @ [Chan (E_channel_close c 0),
                                               Chan (E_channel_get_exit_status c),
                                               Chan (E_channel_get_exit_signal c),
                                               Chan (E_channel_free c)])
                   else exit_code result = 127 \<and> exit_signal result = None)))"
  using assms
proof (cases rule: exec_command_cases)
  case (open_pending tr1)
  then show ?thesis by simp
next
  case (open_failed tr1)
  from channel_open_loop_views [OF open_failed(1)] open_failed(2) show ?thesis
    unfolding open_failed(3) by simp
next
  case (exec_pending c tr1 tr2)
  then show ?thesis by simp
next
  case (exec_failed c tr1 tr2)
  from channel_open_loop_views [OF exec_failed(1)] channel_exec_loop_views [OF exec_failed(2)]
    exec_failed(3) show ?thesis
    unfolding exec_failed(4) by simp
next
  case (drain_pending c tr1 tr2 st tr4)
  then show ?thesis by simp
next
  case (read_failed c tr1 tr2 st tr4)
  from channel_open_loop_views [OF read_failed(1)] channel_exec_loop_views [OF read_failed(2)]
    drain_loop_close_codes [OF read_failed(3)] read_failed(4) show ?thesis
    unfolding read_failed(5) by simp
next
  case (close_pending c tr1 tr2 st tr4 tr6)
  then show ?thesis by simp
next
  case (closed c tr1 tr2 st tr4 rc tr6)
  let ?r0 = "\<lparr>out = None, err = None, exit_code = 127, exit_signal = None\<rparr>"
  let ?pre = "[Mem (E_malloc Blk_result), Mem (E_malloc Blk_either)] @ tr1 @ tr2
            @ [Mem (E_malloc_bytes Blk_out (out_block drain_init)),
               Mem (E_malloc_bytes Blk_err (err_block drain_init))] @ tr4
            @ snd (finish_buffers st ?r0)"
  have v1: "close_codes tr1 = []"
    using channel_open_loop_views [OF closed(1)] by simp
  have v2: "close_codes tr2 = []"
    using channel_exec_loop_views [OF closed(2)] by simp
  have v4: "close_codes tr4 = []"
    by (rule drain_loop_close_codes [OF closed(3)])
  from channel_close_loop_views [OF closed(4)] obtain tr6' where
    v6: "close_codes tr6 \<noteq> []" "last (close_codes tr6) = rc"
      "tr6 = tr6' @ [Chan (E_channel_close c rc)]"
    by blast
  have cc: "close_codes tr = close_codes tr6"
    unfolding closed(6) using v1 v2 v4 by simp
  have e: "e = \<lparr>side = RIGHT, u = U_value
          (if rc = 0
           then (fst (finish_buffers st ?r0))
                  \<lparr>exit_code := exit_status_answer w, exit_signal := exit_signal_answer w\<rparr>
           else fst (finish_buffers st ?r0))\<rparr>"
    using closed(5) by simp
  have fb: "exit_code (fst (finish_buffers st ?r0)) = 127"
    "exit_signal (fst (finish_buffers st ?r0)) = None"
    by (simp_all add: finish_buffers_def)
  show ?thesis
  proof (cases "rc = 0")
    case True
    have "tr = (?pre @ tr6') @ [Chan (E_channel_close c 0), Chan (E_channel_get_exit_status c),
                   Chan (E_channel_get_exit_signal c), Chan (E_channel_free c)]"
      unfolding closed(6) using True v6(3) by simp
    then have "\<exists>tr' c. tr = tr' @ [Chan (E_channel_close c 0), Chan (E_channel_get_exit_status c),
                   Chan (E_channel_get_exit_signal c), Chan (E_channel_free c)]"
      by blast
    with True e cc v6(1,2) show ?thesis by simp
  next
    case False
    with e cc v6(1,2) fb show ?thesis by simp
  qed
qed

lemma exec_command_returns:
  assumes "channel_open_loop (\<lambda>c. Chan (E_channel_open_session (lsession session) c))
             session (channel_open_answers w) = (Completed c, tr1)"
    and "channel_exec_loop session c command (channel_exec_answers w) = (Completed (), tr2)"
    and "drain_loop session c drain_init (read_answers w) = (Completed (), st, tr4)"
    and "channel_close_loop session c (channel_close_answers w) = (Some rc, tr6)"
    and "simplessh_exec_command session command w = (res, tr)"
  shows "(\<exists>result. res = Some \<lparr>side = RIGHT, u = U_value result\<rparr>
            \<and> exit_code result = (if rc = 0 then exit_status_answer w else 127)
            \<and> exit_signal result = (if rc = 0 then exit_signal_answer w else None))
       \<and> close_codes tr \<noteq> [] \<and> last (close_codes tr) = rc"
  using assms(5)
proof (cases rule: exec_command_cases)
  case (closed c' tr1' tr2' st' tr4' rc' tr6')
  have same: "c' = c" "tr1' = tr1" "tr2' = tr2" "st' = st" "tr4' = tr4" "rc' = rc" "tr6' = tr6"
    using closed(1-4) assms(1-4) by simp_all
  let ?r0 = "\<lparr>out = None, err = None, exit_code = 127, exit_signal = None\<rparr>"
  have v1: "close_codes tr1 = []"
    using channel_open_loop_views [OF assms(1)] by simp
  have v2: "close_codes tr2 = []"
    using channel_exec_loop_views [OF assms(2)] by simp
  have v4: "close_codes tr4 = []"
    by (rule drain_loop_close_codes [OF assms(3)])
  have v6: "close_codes tr6 \<noteq> []" "last (close_codes tr6) = rc"
    using channel_close_loop_views [OF assms(4)] by simp_all
  have cc: "close_codes tr = close_codes tr6"
    unfolding closed(6) same using v1 v2 v4 by simp
  have fb: "exit_code (fst (finish_buffers st ?r0)) = 127"
    "exit_signal (fst (finish_buffers st ?r0)) = None"
    by (simp_all add: finish_buffers_def)
  show ?thesis
    using closed(5) cc v6 fb unfolding same by simp
qed (use assms(1-4) in simp_all)

text \<open>
  C7: if the engine's answers let the channel open, the exec request and the drain loop
  complete and the close loop end with a return code, \<^verbatim>\<open>simplessh_exec_command\<close> returns
  the success side whatever that code is; the exit code and the exit signal of the result
  are those the channel reports if the code is zero, and 127 and no signal otherwise. And
  a call that returns is on the success side exactly when it reached
  \<^verbatim>\<open>libssh2_channel_close\<close>; the exit status is fetched after the clean close and before
  the channel is freed.
\<close>

theorem C7_exit_code:
  "(channel_open_loop (\<lambda>c. Chan (E_channel_open_session (lsession session) c))
        session (channel_open_answers w) = (Completed c, tr1)
      \<and> channel_exec_loop session c command (channel_exec_answers w) = (Completed (), tr2)
      \<and> drain_loop session c drain_init (read_answers w) = (Completed (), st, tr4)
      \<and> channel_close_loop session c (channel_close_answers w) = (Some rc, tr6)
    \<longrightarrow> (\<exists>result tr.
           simplessh_exec_command session command w =
             (Some \<lparr>side = RIGHT, u = U_value result\<rparr>, tr)
         \<and> exit_code result = (if rc = 0 then exit_status_answer w else 127)
         \<and> exit_signal result = (if rc = 0 then exit_signal_answer w else None)
         \<and> close_codes tr \<noteq> [] \<and> last (close_codes tr) = rc))
   \<and> (\<forall>e tr. simplessh_exec_command session command w = (Some e, tr) \<longrightarrow>
         (side e = RIGHT) = (close_codes tr \<noteq> [])
       \<and> (side e = RIGHT \<longrightarrow>
            (\<exists>result. u e = U_value result
               \<and> (if last (close_codes tr) = 0
                   then exit_code result = exit_status_answer w
                      \<and> exit_signal result = exit_signal_answer w
                      \<and> (\<exists>tr' c. tr = tr' @ [Chan (E_channel_close c 0),
                                               Chan (E_channel_get_exit_status c),
                                               Chan (E_channel_get_exit_signal c),
                                               Chan (E_channel_free c)])
                   else exit_code result = 127 \<and> exit_signal result = None))))"
proof (intro conjI impI allI)
  assume h: "channel_open_loop (\<lambda>c. Chan (E_channel_open_session (lsession session) c))
        session (channel_open_answers w) = (Completed c, tr1)
      \<and> channel_exec_loop session c command (channel_exec_answers w) = (Completed (), tr2)
      \<and> drain_loop session c drain_init (read_answers w) = (Completed (), st, tr4)
      \<and> channel_close_loop session c (channel_close_answers w) = (Some rc, tr6)"
  obtain res tr where run: "simplessh_exec_command session command w = (res, tr)"
    by (cases "simplessh_exec_command session command w") auto
  from h have h1: "channel_open_loop (\<lambda>c. Chan (E_channel_open_session (lsession session) c))
        session (channel_open_answers w) = (Completed c, tr1)"
    and h2: "channel_exec_loop session c command (channel_exec_answers w) = (Completed (), tr2)"
    and h3: "drain_loop session c drain_init (read_answers w) = (Completed (), st, tr4)"
    and h4: "channel_close_loop session c (channel_close_answers w) = (Some rc, tr6)"
    by simp_all
  from exec_command_returns [OF h1 h2 h3 h4 run] run
  show "\<exists>result tr.
           simplessh_exec_command session command w =
             (Some \<lparr>side = RIGHT, u = U_value result\<rparr>, tr)
         \<and> exit_code result = (if rc = 0 then exit_status_answer w else 127)
         \<and> exit_signal result = (if rc = 0 then exit_signal_answer w else None)
         \<and> close_codes tr \<noteq> [] \<and> last (close_codes tr) = rc"
    by auto
next
  fix e tr
  assume run: "simplessh_exec_command session command w = (Some e, tr)"
  from exec_command_returned [OF run]
  show "(side e = RIGHT) = (close_codes tr \<noteq> [])" by blast
next
  fix e tr
  assume run: "simplessh_exec_command session command w = (Some e, tr)"
    and r: "side e = RIGHT"
  from exec_command_returned [OF run] r
  show "\<exists>result. u e = U_value result
               \<and> (if last (close_codes tr) = 0
                   then exit_code result = exit_status_answer w
                      \<and> exit_signal result = exit_signal_answer w
                      \<and> (\<exists>tr' c. tr = tr' @ [Chan (E_channel_close c 0),
                                               Chan (E_channel_get_exit_status c),
                                               Chan (E_channel_get_exit_signal c),
                                               Chan (E_channel_free c)])
                   else exit_code result = 127 \<and> exit_signal result = None)"
    by blast
qed

theorem C7_witness:
  "\<exists>result tr.
     simplessh_exec_command \<lparr>sock = 3, lsession = Some 7\<rparr> ''ls''
       \<lparr>channel_open_answers = [(Some 9, 0, 0)], channel_exec_answers = [(0, 0)],
        read_answers = [(5, 0, 0), (0, 0, 0)], channel_close_answers = [(- 37, 1), (- 7, 0)],
        exit_status_answer = 2, exit_signal_answer = None\<rparr> =
       (Some \<lparr>side = RIGHT, u = U_value result\<rparr>, tr)
     \<and> exit_code result = 127 \<and> exit_signal result = None \<and> last (close_codes tr) = - 7"
proof -
  let ?s = "\<lparr>sock = 3, lsession = Some 7\<rparr>"
  let ?w = "\<lparr>channel_open_answers = [(Some 9, 0, 0)], channel_exec_answers = [(0, 0)],
        read_answers = [(5, 0, 0), (0, 0, 0)], channel_close_answers = [(- 37, 1), (- 7, 0)],
        exit_status_answer = 2, exit_signal_answer = None\<rparr>"
  have h1: "channel_open_loop (\<lambda>c. Chan (E_channel_open_session (lsession ?s) c))
        ?s (channel_open_answers ?w) =
        (Completed 9, [Chan (E_channel_open_session (Some 7) (Some 9))])"
    by simp
  have h2: "channel_exec_loop ?s 9 ''ls'' (channel_exec_answers ?w) =
        (Completed (), [Chan (E_channel_exec 9 ''ls'' 0)])"
    by simp
  have h3: "drain_loop ?s 9 drain_init (read_answers ?w) =
        (Completed (),
         \<lparr>out_size = 256, out_position = 5, err_size = 128, err_position = 0,
          out_block = 256, err_block = 128\<rparr>,
         [Chan (E_channel_read 9 0 127 5), Chan (E_channel_read_stderr 9 0 127 0),
          Mem (E_realloc Blk_out 256),
          Chan (E_channel_read 9 5 250 0), Chan (E_channel_read_stderr 9 0 127 0)])"
    by (simp add: drain_init_def drain_branch_of_def drain_reads_def advance_out_def
        advance_err_def hdr_defs cint_defs)
  have h4: "channel_close_loop ?s 9 (channel_close_answers ?w) =
        (Some (- 7), [Chan (E_channel_close 9 (- 37)), Ssh (E_block_directions (Some 7) 1),
                      Sys (E_select 4 True False 10), Chan (E_channel_close 9 (- 7))])"
    by (simp add: waitsocket_def hdr_defs cint_defs)
  from C7_exit_code [THEN conjunct1, rule_format, OF conjI [OF h1 conjI [OF h2 conjI [OF h3 h4]]]]
  have "\<exists>result tr. simplessh_exec_command ?s ''ls'' ?w =
           (Some \<lparr>side = RIGHT, u = U_value result\<rparr>, tr)
         \<and> exit_code result = 127 \<and> exit_signal result = None
         \<and> close_codes tr \<noteq> [] \<and> last (close_codes tr) = - 7"
    by simp
  then show ?thesis by blast
qed

end
